theory Spec2Isabelle
  imports Main "HOL-Library.Multiset"
begin

section \<open>Data model of the event correlation engine (pkg/ece/ece.go)\<close>

text \<open>
  Go strings are byte sequences: \<^typ>\<open>string\<close> (a list of 8-bit characters).
  A Go slice is either \<open>nil\<close> or a (possibly empty) sequence; the difference is visible
  in the output of \<open>json.Marshal\<close>, so a slice is an optional list, \<open>None\<close> being \<open>nil\<close>.
\<close>

type_synonym 'a slice = "'a list option"

definition len :: "'a slice \<Rightarrow> nat" where
  "len s = (case s of None \<Rightarrow> 0 | Some xs \<Rightarrow> length xs)"

definition elems :: "'a slice \<Rightarrow> 'a list" where
  "elems s = (case s of None \<Rightarrow> [] | Some xs \<Rightarrow> xs)"

definition append_slice :: "'a slice \<Rightarrow> 'a \<Rightarrow> 'a slice" where
  "append_slice s x = Some (elems s @ [x])"

record WafEntry =
  wEventType :: string
  wRequestId :: string
  wRuleId :: string
  wSeverity :: string
  wAnomalyScore :: string
  wLogData :: string
  wWafMessage :: string

record RequestEntry =
  rEventType :: string
  rServiceId :: string
  rRequestId :: string
  rStartTime :: string
  rFastlyInfo :: string
  rDatacenter :: string
  rClientIp :: string
  rReqMethod :: string
  rReqURI :: string
  rReqHHost :: string
  rReqHUserAgent :: string
  rReqHAcceptEncoding :: string
  rReqHeaderBytes :: string
  rReqBodyBytes :: string
  rWafLogged :: string
  rWafBlocked :: string
  rWafFailures :: string
  rWafExecuted :: string
  rAnomalyScore :: string
  rSqlInjectionScore :: string
  rRfiScore :: string
  rLfiScore :: string
  rRceScore :: string
  rPhpInjectionScore :: string
  rSessionFixationScore :: string
  rHTTPViolationScore :: string
  rXSSScore :: string
  rRespStatus :: string
  rRespBytes :: string
  rRespHeaderBytes :: string
  rRespBodyBytes :: string
  rThrottlingRule :: string
  rTlsProtocol :: string
  rTlsCipher :: string

record OutputWaf =
  oRuleId :: string
  oSeverity :: string
  oAnomalyScore :: string
  oLogData :: string
  oWafMessage :: string

record OutputEvent =
  ServiceId :: string
  RequestId :: string
  StartTime :: string
  FastlyInfo :: string
  Datacenter :: string
  ClientIp :: string
  ReqMethod :: string
  ReqURI :: string
  ReqHHost :: string
  ReqHUserAgent :: string
  ReqHAcceptEncoding :: string
  ReqHeaderBytes :: string
  ReqBodyBytes :: string
  RuleIds :: "int slice"
  WafLogged :: string
  WafBlocked :: string
  WafFailures :: string
  WafExecuted :: string
  AnomalyScore :: string
  SqlInjectionScore :: string
  RfiScore :: string
  LfiScore :: string
  RceScore :: string
  PhpInjectionScore :: string
  SessionFixationScore :: string
  HTTPViolationScore :: string
  XSSScore :: string
  RespStatus :: string
  RespBytes :: string
  RespHeaderBytes :: string
  RespBodyBytes :: string
  WafEvents :: "OutputWaf slice"
  ThrottlingRule :: string
  Throttled :: int
  TlsProtocol :: string
  TlsCipher :: string

text \<open>
  \<open>Event\<close>: the per-key accumulator. \<open>mutex\<close> is \<open>True\<close> while the entry's
  \<open>sync.Mutex\<close> is held. The store maps request ids to pointers (\<open>map[string]*Event\<close>),
  so the engine state carries a heap from addresses to events and an allocation counter.
  \<open>logger\<close> is the sink: the lines written so far, oldest first. \<open>timers\<close> are the
  goroutines started by \<open>go ece.DelayNotify(reqId)\<close> that still sleep.
\<close>

type_synonym addr = nat

record Event =
  mutex :: bool
  WafEntries :: "WafEntry list"
  RequestEntries :: "RequestEntry list"

datatype json =
    JNull
  | JString string
  | JNumber int
  | JArray "json list"
  | JObject "(string \<times> json) list"

record ECE =
  Events :: "string \<rightharpoonup> addr"
  heap :: "addr \<Rightarrow> Event"
  next_addr :: addr
  logger :: "json list"
  timers :: "string multiset"

section \<open>Library functions used by WriteEvent\<close>

subsection \<open>encoding/base64: StdEncoding.DecodeString\<close>

text \<open>
  The standard library's decoder, as \<open>WriteEvent\<close> calls it: the standard alphabet,
  padding character \<open>=\<close>, not strict; \<open>\r\<close> and \<open>\n\<close> are skipped.
  \<open>DecodeString\<close> returns \<open>dbuf[:n], err\<close>: the bytes decoded before the first
  corrupt position, together with the error. \<open>decodeMap\<close> gives the 6-bit value of an
  alphabet character and 255 (\<open>0xff\<close>) for any other byte.
\<close>

definition decodeMap :: "char \<Rightarrow> nat" where
  "decodeMap c =
     (let n = (of_char c :: nat) in
      if 65 \<le> n \<and> n \<le> 90 then n - 65
      else if 97 \<le> n \<and> n \<le> 122 then n - 71
      else if 48 \<le> n \<and> n \<le> 57 then n + 4
      else if n = 43 then 62
      else if n = 47 then 63
      else 255)"

definition is_newline :: "char \<Rightarrow> bool" where
  "is_newline c = ((of_char c :: nat) = 10 \<or> (of_char c :: nat) = 13)"

definition padChar :: char where
  "padChar = CHR ''=''"

fun skip_newlines :: "string \<Rightarrow> string" where
  "skip_newlines [] = []"
| "skip_newlines (c # cs) = (if is_newline c then skip_newlines cs else c # cs)"

text \<open>
  The tail of \<open>decodeQuantum\<close>: \<open>dbuf\<close> holds the 6-bit values read so far (the missing
  ones are 0), \<open>dlen\<close> is their number, and \<open>dlen - 1\<close> bytes are written.
\<close>

definition quantum_bytes :: "nat \<Rightarrow> nat list \<Rightarrow> string" where
  "quantum_bytes dlen dbuf =
     (let d = dbuf @ replicate (4 - length dbuf) 0;
          val = d ! 0 * 262144 + d ! 1 * 4096 + d ! 2 * 64 + d ! 3
      in map char_of (take (dlen - 1)
           [val div 65536 mod 256, val div 256 mod 256, val mod 256]))"

text \<open>
  \<open>Decode\<close> calls \<open>decodeQuantum\<close> until the source is used up or an error is met, and
  adds up the bytes written. \<open>decode_from j dbuf src\<close> is this double loop, at position
  \<open>j\<close> of the current quantum with \<open>src\<close> the unread input; the result is the bytes
  written from here on and whether an error is returned. (The 8- and 4-byte fast paths of
  \<open>Decode\<close> decode the same quanta.)
\<close>

fun decode_from :: "nat \<Rightarrow> nat list \<Rightarrow> string \<Rightarrow> string \<times> bool" where
  "decode_from j dbuf [] = ([], j \<noteq> 0)"
| "decode_from j dbuf (c # cs) =
     (if decodeMap c \<noteq> 255 then
        (if j \<ge> 3 then
           (let r = decode_from 0 [] cs
            in (quantum_bytes 4 (dbuf @ [decodeMap c]) @ fst r, snd r))
         else decode_from (Suc j) (dbuf @ [decodeMap c]) cs)
      else if is_newline c then decode_from j dbuf cs
      else if c \<noteq> padChar then ([], True)
      else if j < 2 then ([], True)
      else if j = 2 then
        (case skip_newlines cs of
           [] \<Rightarrow> ([], True)
         | d # ds \<Rightarrow>
             if d \<noteq> padChar then ([], True)
             else (quantum_bytes 2 dbuf, skip_newlines ds \<noteq> []))
      else (quantum_bytes 3 dbuf, skip_newlines cs \<noteq> []))"

definition DecodeString :: "string \<Rightarrow> string \<times> bool" where
  "DecodeString s = decode_from 0 [] s"

subsection \<open>strconv.Atoi\<close>

text \<open>
  \<open>strconv.Atoi\<close> on a platform with 64-bit \<open>int\<close>: an optional sign, then at least
  one decimal digit and nothing else; the value must fit into 64 bits. The digit loop is
  \<open>ParseUint\<close>'s, with its overflow checks (\<open>cutoff\<close> is \<open>maxUint64/10 + 1\<close>); the
  fast path for short strings gives the same results.
\<close>

datatype num_error = ErrSyntax | ErrRange

fun digits_loop :: "nat \<Rightarrow> string \<Rightarrow> num_error + nat" where
  "digits_loop n [] = Inr n"
| "digits_loop n (c # cs) =
     (let d = (of_char c :: nat) in
      if d < 48 \<or> 57 < d then Inl ErrSyntax
      else if n \<ge> 1844674407370955162 then Inl ErrRange
      else if n * 10 + (d - 48) > 18446744073709551615 then Inl ErrRange
      else digits_loop (n * 10 + (d - 48)) cs)"

definition Atoi :: "string \<Rightarrow> num_error + int" where
  "Atoi s =
     (case s of
        [] \<Rightarrow> Inl ErrSyntax
      | c # cs \<Rightarrow>
          (let neg = (c = CHR ''-'');
               body = (if c = CHR ''+'' \<or> c = CHR ''-'' then cs else s)
           in if body = [] then Inl ErrSyntax
              else (case digits_loop 0 body of
                      Inl e \<Rightarrow> Inl e
                    | Inr un \<Rightarrow>
                        if \<not> neg \<and> un \<ge> 9223372036854775808 then Inl ErrRange
                        else if neg \<and> un > 9223372036854775808 then Inl ErrRange
                        else Inr (if neg then - int un else int un))))"

subsection \<open>Go maps: assignment and iteration order\<close>

text \<open>
  The local map \<open>ruleIds\<close> is an association list with one pair per key.
  \<open>for id := range ruleIds\<close> visits every key once, in an order Go leaves unspecified:
  the order is an input of the model, a list of choices \<open>picks\<close>; \<open>range_order\<close> places
  each key at the chosen position among the keys after it.
\<close>

fun assign :: "'k \<Rightarrow> 'v \<Rightarrow> ('k \<times> 'v) list \<Rightarrow> ('k \<times> 'v) list" where
  "assign k v [] = [(k, v)]"
| "assign k v (p # m) = (if fst p = k then (k, v) # m else p # assign k v m)"

fun range_order :: "nat list \<Rightarrow> 'a list \<Rightarrow> 'a list" where
  "range_order picks [] = []"
| "range_order picks (x # xs) =
     (let r = range_order (tl picks) xs;
          i = (case picks of [] \<Rightarrow> 0 | p # _ \<Rightarrow> p mod Suc (length r))
      in take i r @ x # drop i r)"

subsection \<open>encoding/json: Marshal of an OutputEvent\<close>

text \<open>
  \<open>json.Marshal\<close> writes every exported field of the struct under the name of its
  \<open>json\<close> tag, in declaration order; no field has \<open>omitempty\<close>. A \<open>nil\<close> slice is
  written as \<open>null\<close>, any other slice as an array. The model gives the JSON document,
  not its bytes. For a struct of strings, integers and slices \<open>Marshal\<close> has no error.
\<close>

definition marshal_slice :: "('a \<Rightarrow> json) \<Rightarrow> 'a slice \<Rightarrow> json" where
  "marshal_slice f s = (case s of None \<Rightarrow> JNull | Some xs \<Rightarrow> JArray (map f xs))"

definition marshal_OutputWaf :: "OutputWaf \<Rightarrow> json" where
  "marshal_OutputWaf w = JObject
     [(''rule_id'', JString (oRuleId w)),
      (''severity'', JString (oSeverity w)),
      (''anomaly_score'', JString (oAnomalyScore w)),
      (''logdata'', JString (oLogData w)),
      (''waf_message'', JString (oWafMessage w))]"

definition json_Marshal :: "OutputEvent \<Rightarrow> json" where
  "json_Marshal e = JObject
     [(''service_id'', JString (ServiceId e)),
      (''request_id'', JString (RequestId e)),
      (''start_time'', JString (StartTime e)),
      (''fastly_info'', JString (FastlyInfo e)),
      (''datacenter'', JString (Datacenter e)),
      (''client_ip'', JString (ClientIp e)),
      (''req_method'', JString (ReqMethod e)),
      (''req_uri'', JString (ReqURI e)),
      (''req_h_host'', JString (ReqHHost e)),
      (''req_h_user_agent'', JString (ReqHUserAgent e)),
      (''req_h_accept_encoding'', JString (ReqHAcceptEncoding e)),
      (''req_header_bytes'', JString (ReqHeaderBytes e)),
      (''req_body_bytes'', JString (ReqBodyBytes e)),
      (''rule_ids'', marshal_slice JNumber (RuleIds e)),
      (''waf_logged'', JString (WafLogged e)),
      (''waf_blocked'', JString (WafBlocked e)),
      (''waf_failures'', JString (WafFailures e)),
      (''waf_executed'', JString (WafExecuted e)),
      (''anomaly_score'', JString (AnomalyScore e)),
      (''sql_injection_score'', JString (SqlInjectionScore e)),
      (''rfi_score'', JString (RfiScore e)),
      (''lfi_score'', JString (LfiScore e)),
      (''rce_score'', JString (RceScore e)),
      (''php_injection_score'', JString (PhpInjectionScore e)),
      (''session_fixation_score'', JString (SessionFixationScore e)),
      (''http_violation_score'', JString (HTTPViolationScore e)),
      (''xss_score'', JString (XSSScore e)),
      (''resp_status'', JString (RespStatus e)),
      (''resp_bytes'', JString (RespBytes e)),
      (''resp_header_bytes'', JString (RespHeaderBytes e)),
      (''resp_body_bytes'', JString (RespBodyBytes e)),
      (''waf_events'', marshal_slice marshal_OutputWaf (WafEvents e)),
      (''throttling_rule'', JString (ThrottlingRule e)),
      (''throttled'', JNumber (Throttled e)),
      (''tls_protocol'', JString (TlsProtocol e)),
      (''tls_cipher'', JString (TlsCipher e))]"

definition field_names :: "json \<Rightarrow> string list" where
  "field_names j = (case j of JObject fs \<Rightarrow> map fst fs | _ \<Rightarrow> [])"

definition field :: "string \<Rightarrow> json \<Rightarrow> json option" where
  "field name j = (case j of JObject fs \<Rightarrow> map_of fs name | _ \<Rightarrow> None)"

section \<open>The engine\<close>

subsection \<open>The store\<close>

definition empty_Event :: Event where
  "empty_Event = \<lparr>mutex = False, WafEntries = [], RequestEntries = []\<rparr>"

definition NewECE :: ECE where
  "NewECE = \<lparr>Events = Map.empty, heap = (\<lambda>_. empty_Event), next_addr = 0,
     logger = [], timers = {#}\<rparr>"

text \<open>
  \<open>RetrieveEvent\<close> looks the key up under the read lock; when it is missing it takes the
  write lock, looks again, and only if the key is still missing inserts a new event and
  starts \<open>DelayNotify\<close>. \<open>RetrieveEvent_insert\<close> is the part under the write lock
  together with the \<open>go\<close> statement that follows it.
\<close>

definition RetrieveEvent_insert :: "ECE \<Rightarrow> string \<Rightarrow> ECE \<times> addr" where
  "RetrieveEvent_insert ece reqId =
     (case Events ece reqId of
        Some event \<Rightarrow> (ece, event)
      | None \<Rightarrow>
          (let event = next_addr ece
           in (ece\<lparr>Events := (Events ece)(reqId \<mapsto> event),
                    heap := (heap ece)(event := empty_Event),
                    next_addr := Suc event,
                    timers := add_mset reqId (timers ece)\<rparr>, event)))"

definition RetrieveEvent :: "ECE \<Rightarrow> string \<Rightarrow> ECE \<times> addr" where
  "RetrieveEvent ece reqId =
     (case Events ece reqId of
        Some event \<Rightarrow> (ece, event)
      | None \<Rightarrow> RetrieveEvent_insert ece reqId)"

text \<open>\<open>RemoveEvent\<close> returns the pointer stored under the key, \<open>nil\<close> (\<open>None\<close>) when
  there is none, and deletes the key.\<close>

definition RemoveEvent :: "ECE \<Rightarrow> string \<Rightarrow> ECE \<times> addr option" where
  "RemoveEvent ece reqId = (ece\<lparr>Events := (Events ece)(reqId := None)\<rparr>, Events ece reqId)"

subsection \<open>AddEvent\<close>

text \<open>
  \<open>AddEvent\<close> after the message has been unmarshalled: a \<open>waf\<close> entry or a \<open>req\<close>
  entry. The append takes the entry's mutex; on a mutex that is held (and
  \<open>WriteEvent\<close> never releases it) the caller waits for ever: \<open>None\<close>.
\<close>

datatype entry = Waf WafEntry | Req RequestEntry

fun key_of :: "entry \<Rightarrow> string" where
  "key_of (Waf waf) = wRequestId waf"
| "key_of (Req req) = rRequestId req"

fun append_to :: "Event \<Rightarrow> entry \<Rightarrow> Event" where
  "append_to event (Waf waf) = event\<lparr>WafEntries := WafEntries event @ [waf]\<rparr>"
| "append_to event (Req req) = event\<lparr>RequestEntries := RequestEntries event @ [req]\<rparr>"

definition append_entry :: "ECE \<Rightarrow> addr \<Rightarrow> entry \<Rightarrow> ECE option" where
  "append_entry ece event e =
     (if mutex (heap ece event) then None
      else Some (ece\<lparr>heap := (heap ece)(event := append_to (heap ece event) e)\<rparr>))"

definition AddEvent :: "ECE \<Rightarrow> entry \<Rightarrow> ECE option" where
  "AddEvent ece e =
     (case RetrieveEvent ece (key_of e) of (ece1, event) \<Rightarrow> append_entry ece1 event e)"

subsection \<open>WriteEvent\<close>

datatype error = ConversionError string num_error

datatype outcome = Returns ECE "error option" | Panics ECE | Blocks ECE

definition zero_OutputEvent :: OutputEvent where
  "zero_OutputEvent =
     \<lparr>ServiceId = '''', RequestId = '''', StartTime = '''',
      FastlyInfo = '''', Datacenter = '''', ClientIp = '''',
      ReqMethod = '''', ReqURI = '''', ReqHHost = '''',
      ReqHUserAgent = '''', ReqHAcceptEncoding = '''', ReqHeaderBytes = '''',
      ReqBodyBytes = '''', RuleIds = None, WafLogged = '''',
      WafBlocked = '''', WafFailures = '''', WafExecuted = '''',
      AnomalyScore = '''', SqlInjectionScore = '''', RfiScore = '''',
      LfiScore = '''', RceScore = '''', PhpInjectionScore = '''',
      SessionFixationScore = '''', HTTPViolationScore = '''', XSSScore = '''',
      RespStatus = '''', RespBytes = '''', RespHeaderBytes = '''',
      RespBodyBytes = '''', WafEvents = None, ThrottlingRule = '''',
      Throttled = 0, TlsProtocol = '''', TlsCipher = ''''\<rparr>"

text \<open>The first part of \<open>WriteEvent\<close>: the output starts from the first request entry, or
  from the request id alone.\<close>

definition base_output :: "string \<Rightarrow> Event \<Rightarrow> OutputEvent" where
  "base_output reqId event =
     (case RequestEntries event of
        r # _ \<Rightarrow>
          \<lparr>ServiceId = rServiceId r, RequestId = rRequestId r,
           StartTime = rStartTime r, FastlyInfo = rFastlyInfo r,
           Datacenter = rDatacenter r, ClientIp = rClientIp r,
           ReqMethod = rReqMethod r, ReqURI = rReqURI r,
           ReqHHost = rReqHHost r, ReqHUserAgent = rReqHUserAgent r,
           ReqHAcceptEncoding = rReqHAcceptEncoding r, ReqHeaderBytes = rReqHeaderBytes r,
           ReqBodyBytes = rReqBodyBytes r, RuleIds = None,
           WafLogged = rWafLogged r, WafBlocked = rWafBlocked r,
           WafFailures = rWafFailures r, WafExecuted = rWafExecuted r,
           AnomalyScore = rAnomalyScore r, SqlInjectionScore = rSqlInjectionScore r,
           RfiScore = rRfiScore r, LfiScore = rLfiScore r,
           RceScore = rRceScore r, PhpInjectionScore = rPhpInjectionScore r,
           SessionFixationScore = rSessionFixationScore r, HTTPViolationScore = rHTTPViolationScore r,
           XSSScore = rXSSScore r, RespStatus = rRespStatus r,
           RespBytes = rRespBytes r, RespHeaderBytes = rRespHeaderBytes r,
           RespBodyBytes = rRespBodyBytes r, WafEvents = None,
           ThrottlingRule = rThrottlingRule r, Throttled = 0,
           TlsProtocol = rTlsProtocol r, TlsCipher = rTlsCipher r\<rparr>
      | [] \<Rightarrow> zero_OutputEvent\<lparr>RequestId := reqId\<rparr>)"

text \<open>The loop over \<open>event.WafEntries\<close>: the state is the output event and the map
  \<open>ruleIds\<close>. The error of \<open>DecodeString\<close> is dropped.\<close>

definition decode_logdata :: "string \<Rightarrow> string" where
  "decode_logdata logData = (if logData \<noteq> [] then fst (DecodeString logData) else [])"

definition wafOut :: "WafEntry \<Rightarrow> OutputWaf" where
  "wafOut wafEvent =
     \<lparr>oRuleId = wRuleId wafEvent, oSeverity = wSeverity wafEvent,
      oAnomalyScore = wAnomalyScore wafEvent, oLogData = decode_logdata (wLogData wafEvent),
      oWafMessage = wWafMessage wafEvent\<rparr>"

fun waf_loop :: "WafEntry list \<Rightarrow> OutputEvent \<times> (string \<times> int) list
    \<Rightarrow> OutputEvent \<times> (string \<times> int) list" where
  "waf_loop [] st = st"
| "waf_loop (wafEvent # rest) (outputEvent, ruleIds) =
     waf_loop rest
       (outputEvent\<lparr>WafEvents := append_slice (WafEvents outputEvent) (wafOut wafEvent)\<rparr>,
        assign (wRuleId wafEvent) 1 ruleIds)"

text \<open>The loop over the keys of \<open>ruleIds\<close>, in the order \<open>range\<close> visits them: \<open>ids\<close>
  has one slot per key, \<open>i\<close> is the next slot.\<close>

fun ids_loop :: "string list \<Rightarrow> nat \<Rightarrow> int list \<Rightarrow> error + int list" where
  "ids_loop [] i ids = Inr ids"
| "ids_loop (rid # rest) i ids =
     (case Atoi rid of
        Inl err \<Rightarrow> Inl (ConversionError rid err)
      | Inr number \<Rightarrow> ids_loop rest (Suc i) (ids[i := number]))"

definition set_throttled :: "OutputEvent \<Rightarrow> OutputEvent" where
  "set_throttled outputEvent =
     (if ThrottlingRule outputEvent \<noteq> [] then outputEvent\<lparr>Throttled := 1\<rparr>
      else outputEvent)"

text \<open>\<open>WriteEvent\<close> from the declaration of \<open>outputEvent\<close> to the setting of
  \<open>Throttled\<close>.\<close>

definition build_output :: "nat list \<Rightarrow> string \<Rightarrow> Event \<Rightarrow> error + OutputEvent" where
  "build_output picks reqId event =
     (case waf_loop (WafEntries event) (base_output reqId event, []) of
        (outputEvent, ruleIds) \<Rightarrow>
          (case ids_loop (range_order picks (map fst ruleIds)) 0
                  (replicate (length ruleIds) 0) of
             Inl err \<Rightarrow> Inl err
           | Inr ids \<Rightarrow>
               Inr (set_throttled (outputEvent\<lparr>RuleIds := Some ids\<rparr>))))"

text \<open>
  \<open>WriteEvent\<close> once \<open>RemoveEvent\<close> has returned a pointer: it takes the entry's mutex
  and keeps it, builds the output, and prints the marshalled line unless a rule id does
  not convert. On the \<open>nil\<close> pointer that \<open>RemoveEvent\<close> returns for a missing key,
  \<open>event.mutex.Lock()\<close> is a nil dereference: the goroutine panics.
\<close>

definition WriteEvent_body :: "nat list \<Rightarrow> ECE \<Rightarrow> string \<Rightarrow> addr \<Rightarrow> outcome" where
  "WriteEvent_body picks ece reqId event =
     (if mutex (heap ece event) then Blocks ece
      else
        (let ece1 = ece\<lparr>heap := (heap ece)(event := (heap ece event)\<lparr>mutex := True\<rparr>)\<rparr>
         in case build_output picks reqId (heap ece event) of
              Inl err \<Rightarrow> Returns ece1 (Some err)
            | Inr outputEvent \<Rightarrow>
                Returns (ece1\<lparr>logger := logger ece1 @ [json_Marshal outputEvent]\<rparr>) None))"

definition WriteEvent :: "nat list \<Rightarrow> ECE \<Rightarrow> string \<Rightarrow> outcome" where
  "WriteEvent picks ece reqId =
     (case RemoveEvent ece reqId of
        (ece1, None) \<Rightarrow> Panics ece1
      | (ece1, Some event) \<Rightarrow> WriteEvent_body picks ece1 reqId event)"

text \<open>\<open>DelayNotify\<close> when its sleep is over: the goroutine leaves the sleeping ones and
  calls \<open>WriteEvent\<close>.\<close>

definition DelayNotify :: "nat list \<Rightarrow> ECE \<Rightarrow> string \<Rightarrow> outcome" where
  "DelayNotify picks ece reqId = WriteEvent picks (ece\<lparr>timers := timers ece - {#reqId#}\<rparr>) reqId"

subsection \<open>The running system\<close>

text \<open>
  Goroutines interleave between the critical sections of the code. The system state is
  the engine together with the calls that are between two sections:
  \<^item> \<open>Missed e\<close>: an \<open>AddEvent\<close> whose \<open>RetrieveEvent\<close> found the key missing under the
    read lock and has not yet taken the write lock;
  \<^item> \<open>Holding a e\<close>: an \<open>AddEvent\<close> to which \<open>RetrieveEvent\<close> returned the pointer
    \<open>a\<close> and which has not appended yet;
  \<^item> \<open>flushes\<close>: the \<open>WriteEvent\<close> calls to which \<open>RemoveEvent\<close> returned a pointer and
    which have not yet taken the entry's mutex.
  \<open>crashed\<close> is set by a panic. The steps are the critical sections: \<open>Lookup\<close> (the
  read-locked lookup of \<open>RetrieveEvent\<close>), \<open>Insert\<close> (its write-locked part and the
  \<open>go\<close> statement), \<open>Append\<close> (the append under the entry's mutex), \<open>Fire\<close> (a
  \<open>DelayNotify\<close> wakes up and \<open>WriteEvent\<close> calls \<open>RemoveEvent\<close>) and \<open>Flush\<close> (the
  rest of \<open>WriteEvent\<close>). \<open>exec\<close> is \<open>None\<close> when the step cannot be taken.
\<close>

datatype call = Missed entry | Holding addr entry

record system =
  engine :: ECE
  calls :: "call multiset"
  flushes :: "(string \<times> addr) multiset"
  crashed :: bool

datatype action =
    Lookup entry
  | Insert entry
  | Append addr entry
  | Fire string
  | Flush "nat list" string addr

fun exec :: "action \<Rightarrow> system \<Rightarrow> system option" where
  "exec (Lookup e) s =
     (if crashed s then None
      else (case Events (engine s) (key_of e) of
              Some a \<Rightarrow> Some (s\<lparr>calls := add_mset (Holding a e) (calls s)\<rparr>)
            | None \<Rightarrow> Some (s\<lparr>calls := add_mset (Missed e) (calls s)\<rparr>)))"
| "exec (Insert e) s =
     (if crashed s \<or> \<not> Missed e \<in># calls s then None
      else (case RetrieveEvent_insert (engine s) (key_of e) of
              (ece1, a) \<Rightarrow>
                Some (s\<lparr>engine := ece1,
                        calls := add_mset (Holding a e) (calls s - {#Missed e#})\<rparr>)))"
| "exec (Append a e) s =
     (if crashed s \<or> \<not> Holding a e \<in># calls s then None
      else (case append_entry (engine s) a e of
              None \<Rightarrow> None
            | Some ece1 \<Rightarrow> Some (s\<lparr>engine := ece1, calls := calls s - {#Holding a e#}\<rparr>)))"
| "exec (Fire k) s =
     (if crashed s \<or> \<not> k \<in># timers (engine s) then None
      else (case RemoveEvent ((engine s)\<lparr>timers := timers (engine s) - {#k#}\<rparr>) k of
              (ece1, None) \<Rightarrow> Some (s\<lparr>engine := ece1, crashed := True\<rparr>)
            | (ece1, Some a) \<Rightarrow>
                Some (s\<lparr>engine := ece1, flushes := add_mset (k, a) (flushes s)\<rparr>)))"
| "exec (Flush picks k a) s =
     (if crashed s \<or> \<not> (k, a) \<in># flushes s then None
      else (case WriteEvent_body picks (engine s) k a of
              Returns ece1 err \<Rightarrow>
                Some (s\<lparr>engine := ece1, flushes := flushes s - {#(k, a)#}\<rparr>)
            | Panics ece1 \<Rightarrow> Some (s\<lparr>engine := ece1, crashed := True\<rparr>)
            | Blocks ece1 \<Rightarrow> None))"

definition start :: system where
  "start = \<lparr>engine = NewECE, calls = {#}, flushes = {#}, crashed = False\<rparr>"

inductive reachable :: "system \<Rightarrow> bool" where
  reachable_start: "reachable start"
| reachable_step: "reachable s \<Longrightarrow> exec a s = Some s' \<Longrightarrow> reachable s'"

text \<open>The number of sleeping \<open>DelayNotify\<close> goroutines for a key: its pending
  evictions.\<close>

definition pending :: "system \<Rightarrow> string \<Rightarrow> nat" where
  "pending s k = count (timers (engine s)) k"

subsection \<open>Observations\<close>

text \<open>A rule id is integer-parseable when \<open>Atoi\<close> returns no error; \<open>int_of\<close> is the
  number it returns. \<open>rule_keys\<close> are the keys of the map \<open>ruleIds\<close> after the loop over
  the entry's waf entries. \<open>state_of\<close> is the engine an outcome leaves.\<close>

definition parseable :: "string \<Rightarrow> bool" where
  "parseable s = (case Atoi s of Inr _ \<Rightarrow> True | Inl _ \<Rightarrow> False)"

definition int_of :: "string \<Rightarrow> int" where
  "int_of s = (case Atoi s of Inr n \<Rightarrow> n | Inl _ \<Rightarrow> 0)"

definition rule_keys :: "Event \<Rightarrow> string list" where
  "rule_keys event = map fst (snd (waf_loop (WafEntries event) (zero_OutputEvent, [])))"

fun state_of :: "outcome \<Rightarrow> ECE" where
  "state_of (Returns ece err) = ece"
| "state_of (Panics ece) = ece"
| "state_of (Blocks ece) = ece"

subsection \<open>Fixtures\<close>

text \<open>
  The entries of the test fixtures (\<open>TestWafEntry\<close>, \<open>TestWebEntry\<close>), with a short
  request id and with the rule id, the log data, the service id and the throttling rule
  left open. \<open>store_with event\<close> is the engine that holds \<open>event\<close> under the key
  \<open>R1\<close>, its eviction pending.
\<close>

definition TestWafEntry :: "string \<Rightarrow> string \<Rightarrow> WafEntry" where
  "TestWafEntry ruleId logData =
     \<lparr>wEventType = ''waf'', wRequestId = ''R1'', wRuleId = ruleId, wSeverity = ''99'',
      wAnomalyScore = ''0'', wLogData = logData, wWafMessage = ''''\<rparr>"

definition TestWebEntry :: "string \<Rightarrow> string \<Rightarrow> RequestEntry" where
  "TestWebEntry serviceId throttlingRule =
     \<lparr>rEventType = ''req'', rServiceId = serviceId,
      rRequestId = ''R1'', rStartTime = ''1521150005'',
      rFastlyInfo = ''PASS'', rDatacenter = ''SFO'',
      rClientIp = ''8.8.8.8'', rReqMethod = ''POST'',
      rReqURI = ''L2luZGV4Lmh0bWwK'', rReqHHost = ''api.scribd.com'',
      rReqHUserAgent = ''Zm9vLzEuMQo='', rReqHAcceptEncoding = ''gzip'',
      rReqHeaderBytes = ''338'', rReqBodyBytes = ''852'',
      rWafLogged = ''0'', rWafBlocked = ''0'',
      rWafFailures = ''0'', rWafExecuted = ''1'',
      rAnomalyScore = ''0'', rSqlInjectionScore = ''0'',
      rRfiScore = ''0'', rLfiScore = ''0'',
      rRceScore = ''0'', rPhpInjectionScore = ''0'',
      rSessionFixationScore = ''0'', rHTTPViolationScore = ''0'',
      rXSSScore = ''0'', rRespStatus = ''200'',
      rRespBytes = ''697'', rRespHeaderBytes = ''620'',
      rRespBodyBytes = ''77'', rThrottlingRule = throttlingRule,
      rTlsProtocol = '''', rTlsCipher = ''''\<rparr>"

definition store_with :: "Event \<Rightarrow> ECE" where
  "store_with event =
     \<lparr>Events = [''R1'' \<mapsto> 0], heap = (\<lambda>_. empty_Event)(0 := event), next_addr = 1,
      logger = [], timers = {#''R1''#}\<rparr>"

definition event_of :: "WafEntry list \<Rightarrow> RequestEntry list \<Rightarrow> Event" where
  "event_of wafs reqs = \<lparr>mutex = False, WafEntries = wafs, RequestEntries = reqs\<rparr>"

text \<open>The stores of three scenarios: a request entry and a waf entry; a waf entry only;
  two request entries (the first one throttled) and two waf entries with the same rule id.\<close>

definition scenario_A :: ECE where
  "scenario_A = store_with (event_of [TestWafEntry ''0'' []] [TestWebEntry ''AAABBBB'' []])"

definition scenario_B :: ECE where
  "scenario_B = store_with (event_of [TestWafEntry ''0'' []] [])"

definition scenario_D :: ECE where
  "scenario_D = store_with (event_of [TestWafEntry ''0'' [], TestWafEntry ''0'' []]
     [TestWebEntry ''AAABBBB'' ''rule7'', TestWebEntry ''OTHER'' []])"

subsection \<open>The field list of the specification\<close>

text \<open>The names the specification fixes for an output line, in its order.\<close>

definition spec_field_names :: "string list" where
  "spec_field_names =
     [''service_id'', ''request_id'', ''start_time'', ''fastly_info'', ''datacenter'',
      ''client_ip'', ''req_method'', ''req_uri'', ''req_h_host'', ''req_h_user_agent'',
      ''req_h_accept_encoding'', ''req_header_bytes'', ''req_body_bytes'', ''rule_ids'',
      ''waf_logged'', ''waf_blocked'', ''waf_failures'', ''waf_executed'', ''anomaly_score'',
      ''sql_injection_score'', ''rfi_score'', ''lfi_score'', ''rce_score'',
      ''php_injection_score'', ''session_fixation_score'', ''http_violation_score'',
      ''xss_score'', ''resp_status'', ''resp_bytes'', ''resp_header_bytes'',
      ''resp_body_bytes'', ''waf_events'', ''throttling_rule'', ''throttled'']"

subsection \<open>Invariants of the running system\<close>

text \<open>
  \<open>timers_inv\<close>: nothing has panicked, and a key has one sleeping \<open>DelayNotify\<close> if it
  is in the store and none otherwise. \<open>heap_inv\<close>: the entries in the store are allocated,
  their mutex is free, no two keys share an entry, and an entry in the store is not being
  flushed; an entry being flushed is allocated and is flushed once. \<open>run\<close> takes a list
  of steps; \<open>idle ece\<close> is the system with engine \<open>ece\<close> and no call under way.
\<close>

definition timers_inv :: "system \<Rightarrow> bool" where
  "timers_inv s =
     (\<not> crashed s
      \<and> (\<forall>k. count (timers (engine s)) k = (if Events (engine s) k = None then 0 else 1)))"

definition heap_inv :: "system \<Rightarrow> bool" where
  "heap_inv s =
     ((\<forall>k a. Events (engine s) k = Some a \<longrightarrow>
             a < next_addr (engine s) \<and> \<not> mutex (heap (engine s) a)
             \<and> (\<forall>k'. (k', a) \<notin># flushes s)
             \<and> (\<forall>k'. Events (engine s) k' = Some a \<longrightarrow> k' = k))
      \<and> (\<forall>k a. (k, a) \<in># flushes s \<longrightarrow> a < next_addr (engine s))
      \<and> (\<forall>k a. count (flushes s) (k, a) \<le> 1))"

fun run :: "action list \<Rightarrow> system \<Rightarrow> system option" where
  "run [] s = Some s"
| "run (a # as) s = (case exec a s of None \<Rightarrow> None | Some s' \<Rightarrow> run as s')"

definition idle :: "ECE \<Rightarrow> system" where
  "idle ece = \<lparr>engine = ece, calls = {#}, flushes = {#}, crashed = False\<rparr>"

section \<open>Properties of the library functions and loops\<close>

lemma mset_range_order: "mset (range_order picks xs) = mset xs"
proof (induction xs arbitrary: picks)
  case Nil
  show ?case by simp
next
  case (Cons x xs)
  have "mset (take i r @ x # drop i r) = add_mset x (mset r)" for i and r :: "'a list"
    by (metis append_take_drop_id mset.simps(2) union_mset_add_mset_right mset_append)
  then show ?case using Cons.IH by (simp add: Let_def)
qed

lemma set_range_order: "set (range_order picks xs) = set xs"
  by (metis mset_range_order set_mset_mset)

lemma length_range_order: "length (range_order picks xs) = length xs"
  by (metis mset_range_order size_mset)

lemma distinct_range_order: "distinct (range_order picks xs) = distinct xs"
  by (metis mset_range_order distinct_count_atmost_1 set_mset_mset)

text \<open>Every order of the keys is the order of some choices.\<close>

lemma range_order_complete:
  "mset ys = mset xs \<Longrightarrow> \<exists>picks. range_order picks xs = ys"
proof (induction xs arbitrary: ys)
  case Nil
  then show ?case by simp
next
  case (Cons x xs)
  from Cons.prems have "x \<in> set ys" by (metis list.set_intros(1) set_mset_mset)
  then obtain as bs where ys: "ys = as @ x # bs" by (auto dest: split_list)
  with Cons.prems have "mset (as @ bs) = mset xs" by simp
  from Cons.IH[OF this] obtain picks where r: "range_order picks xs = as @ bs" by blast
  have "range_order (length as # picks) (x # xs) = ys"
    using r ys by (simp add: Let_def)
  then show ?case by blast
qed

lemma keys_assign: "set (map fst (assign k v m)) = insert k (set (map fst m))"
  by (induction m) auto

lemma distinct_assign: "distinct (map fst m) \<Longrightarrow> distinct (map fst (assign k v m))"
  by (induction m) (auto simp: keys_assign[simplified])

lemma snd_waf_loop: "snd (waf_loop ws (out, m)) = fold (\<lambda>w. assign (wRuleId w) 1) ws m"
  by (induction ws arbitrary: out m) simp_all

lemma fst_waf_loop:
  "fst (waf_loop ws (out, m)) =
     out\<lparr>WafEvents := (if ws = [] then WafEvents out
                        else Some (elems (WafEvents out) @ map wafOut ws))\<rparr>"
  by (induction ws arbitrary: out m) (simp_all add: append_slice_def elems_def)

lemma keys_fold_assign:
  "set (map fst (fold (\<lambda>w. assign (wRuleId w) 1) ws m)) = set (map fst m) \<union> wRuleId ` set ws"
  by (induction ws arbitrary: m) (auto simp: keys_assign[simplified])

lemma distinct_fold_assign:
  "distinct (map fst m) \<Longrightarrow> distinct (map fst (fold (\<lambda>w. assign (wRuleId w) 1) ws m))"
  by (induction ws arbitrary: m) (simp_all add: distinct_assign)

lemma ids_loop_ok:
  "\<forall>k\<in>set ks. parseable k \<Longrightarrow> i + length ks \<le> length ids \<Longrightarrow>
   ids_loop ks i ids = Inr (take i ids @ map int_of ks @ drop (i + length ks) ids)"
proof (induction ks arbitrary: i ids)
  case Nil
  then show ?case by simp
next
  case (Cons k ks)
  from Cons.prems obtain n where n: "Atoi k = Inr n"
    by (auto simp: parseable_def split: sum.splits)
  have i: "i < length ids" using Cons.prems by simp
  have "ids_loop ks (Suc i) (ids[i := n])
      = Inr (take (Suc i) (ids[i := n]) @ map int_of ks @ drop (Suc i + length ks) (ids[i := n]))"
    using Cons.prems by (intro Cons.IH) simp_all
  moreover have "take (Suc i) (ids[i := n]) = take i ids @ [n]"
    using i by (simp add: take_Suc_conv_app_nth)
  ultimately show ?case using n by (simp add: int_of_def)
qed

lemma ids_loop_err:
  "\<not> (\<forall>k\<in>set ks. parseable k) \<Longrightarrow>
   \<exists>k e. k \<in> set ks \<and> \<not> parseable k \<and> ids_loop ks i ids = Inl (ConversionError k e)"
proof (induction ks arbitrary: i ids)
  case Nil
  then show ?case by simp
next
  case (Cons k ks)
  show ?case
  proof (cases "Atoi k")
    case (Inl e)
    then show ?thesis by (auto simp: parseable_def)
  next
    case (Inr n)
    then have "\<not> (\<forall>k\<in>set ks. parseable k)" using Cons.prems by (auto simp: parseable_def)
    from Cons.IH[OF this, of "Suc i" "ids[i := n]"] Inr show ?thesis by auto
  qed
qed

lemma set_rule_keys: "set (rule_keys event) = wRuleId ` set (WafEntries event)"
  by (simp add: rule_keys_def snd_waf_loop keys_fold_assign[simplified])

lemma distinct_rule_keys: "distinct (rule_keys event)"
  by (simp add: rule_keys_def snd_waf_loop distinct_fold_assign)

lemma build_output_ok:
  assumes "\<forall>w\<in>set (WafEntries event). parseable (wRuleId w)"
  shows "build_output picks reqId event =
     Inr (set_throttled ((base_output reqId event)
        \<lparr>WafEvents := (if WafEntries event = [] then WafEvents (base_output reqId event)
            else Some (elems (WafEvents (base_output reqId event)) @ map wafOut (WafEntries event))),
         RuleIds := Some (map int_of (range_order picks (rule_keys event)))\<rparr>))"
proof -
  obtain out m where w: "waf_loop (WafEntries event) (base_output reqId event, []) = (out, m)"
    by (cases "waf_loop (WafEntries event) (base_output reqId event, [])")
  have m: "map fst m = rule_keys event"
    using w snd_waf_loop[of "WafEntries event" "base_output reqId event" "[]"]
    by (simp add: rule_keys_def snd_waf_loop)
  have out: "out = (base_output reqId event)
        \<lparr>WafEvents := (if WafEntries event = [] then WafEvents (base_output reqId event)
            else Some (elems (WafEvents (base_output reqId event)) @ map wafOut (WafEntries event)))\<rparr>"
    using w fst_waf_loop[of "WafEntries event" "base_output reqId event" "[]"] by simp
  have "\<forall>k\<in>set (range_order picks (rule_keys event)). parseable k"
    using assms by (simp add: set_range_order set_rule_keys)
  have "ids_loop (range_order picks (rule_keys event)) 0 (replicate (length m) 0)
      = Inr (map int_of (range_order picks (rule_keys event)))"
  proof -
    have l: "length (rule_keys event) = length m" using m by (metis length_map)
    from ids_loop_ok[OF \<open>\<forall>k\<in>set (range_order picks (rule_keys event)). parseable k\<close>, of 0 "replicate (length m) 0"]
    show ?thesis by (simp add: length_range_order l)
  qed
  then show ?thesis
    using w m out by (simp add: build_output_def set_throttled_def Let_def)
qed

lemma build_output_err:
  assumes "\<not> (\<forall>w\<in>set (WafEntries event). parseable (wRuleId w))"
  shows "\<exists>k e. k \<in> wRuleId ` set (WafEntries event) \<and> \<not> parseable k
        \<and> build_output picks reqId event = Inl (ConversionError k e)"
proof -
  obtain out m where w: "waf_loop (WafEntries event) (base_output reqId event, []) = (out, m)"
    by (cases "waf_loop (WafEntries event) (base_output reqId event, [])")
  have m: "map fst m = rule_keys event"
    using w snd_waf_loop[of "WafEntries event" "base_output reqId event" "[]"]
    by (simp add: rule_keys_def snd_waf_loop)
  have "\<not> (\<forall>k\<in>set (range_order picks (rule_keys event)). parseable k)"
    using assms by (simp add: set_range_order set_rule_keys)
  from ids_loop_err[OF this, of 0 "replicate (length m) 0"]
  show ?thesis using w m by (auto simp: build_output_def set_range_order set_rule_keys)
qed

subsection \<open>The decoder on a corrupt byte\<close>

lemma skip_newlines_append_Cons:
  "skip_newlines xs = d # ds \<Longrightarrow> skip_newlines (xs @ ys) = d # ds @ ys"
  by (induction xs) (auto split: if_splits)

lemma skip_newlines_append_Nil:
  "skip_newlines xs = [] \<Longrightarrow> \<not> is_newline c \<Longrightarrow> skip_newlines (xs @ c # ys) = c # ys"
  by (induction xs) (auto split: if_splits)

lemma decode_from_corrupt:
  "decode_from j dbuf xs = (bs, False) \<Longrightarrow> decodeMap c = 255 \<Longrightarrow> \<not> is_newline c \<Longrightarrow>
   decode_from j dbuf (xs @ c # rest) = (bs, True)"
proof (induction xs arbitrary: j dbuf bs)
  case Nil
  then show ?case by simp
next
  case (Cons x xs)
  show ?case
  proof (cases "decodeMap x \<noteq> 255")
    case True
    show ?thesis
    proof (cases "j \<ge> 3")
      case j: True
      obtain b e where r: "decode_from 0 [] xs = (b, e)" by (cases "decode_from 0 [] xs")
      with Cons.prems(1) True j have "e = False" "bs = quantum_bytes 4 (dbuf @ [decodeMap x]) @ b"
        by (simp_all add: Let_def)
      with Cons.IH[of 0 "[]" b] r Cons.prems(2,3) True j show ?thesis
        by (simp add: Let_def)
    next
      case False
      with Cons.IH[of "Suc j" "dbuf @ [decodeMap x]" bs] Cons.prems True show ?thesis by simp
    qed
  next
    case False
    show ?thesis
    proof (cases "is_newline x")
      case True
      with Cons.IH[of j dbuf bs] Cons.prems False show ?thesis by simp
    next
      case nl: False
      show ?thesis
      proof (cases "j = 2")
        case True
        with Cons.prems(1) False nl obtain d ds where
          s: "skip_newlines xs = d # ds" and p: "x = padChar" "d = padChar"
          and e: "skip_newlines ds = []" and b: "bs = quantum_bytes 2 dbuf"
          by (auto split: if_splits list.splits)
        from skip_newlines_append_Cons[OF s, of "c # rest"]
          skip_newlines_append_Nil[OF e Cons.prems(3), of rest]
        show ?thesis using False nl True p b by simp
      next
        case j2: False
        with Cons.prems(1) False nl have
          p: "x = padChar" and j: "\<not> j < 2" and e: "skip_newlines xs = []"
          and b: "bs = quantum_bytes 3 dbuf"
          by (auto split: if_splits)
        from skip_newlines_append_Nil[OF e Cons.prems(3), of rest]
        show ?thesis using False nl j2 p j b by simp
      qed
    qed
  qed
qed

lemma DecodeString_QUJD_bang: "DecodeString ''QUJD!'' = (''ABC'', True)"
  by (simp add: DecodeString_def decodeMap_def is_newline_def padChar_def quantum_bytes_def
      char_of_eq_iff)

section \<open>Properties of WriteEvent\<close>

lemma WriteEvent_written:
  assumes "Events ece reqId = Some a" "WriteEvent picks ece reqId = Returns ece' None"
  shows "\<exists>out. build_output picks reqId (heap ece a) = Inr out
           \<and> logger ece' = logger ece @ [json_Marshal out]
           \<and> Events ece' = (Events ece)(reqId := None)"
  using assms
  by (auto simp: WriteEvent_def RemoveEvent_def WriteEvent_body_def Let_def
           split: if_splits sum.splits)

lemma build_output_Inr_parseable:
  assumes "build_output picks reqId event = Inr out"
  shows "\<forall>w\<in>set (WafEntries event). parseable (wRuleId w)"
proof (rule ccontr)
  assume "\<not> ?thesis"
  from build_output_err[OF this, of picks reqId] assms show False by auto
qed

lemma base_output_first:
  "RequestEntries event = r # later \<Longrightarrow> out = base_output reqId event \<Longrightarrow>
        ServiceId out = rServiceId r \<and>
        RequestId out = rRequestId r \<and>
        StartTime out = rStartTime r \<and>
        FastlyInfo out = rFastlyInfo r \<and>
        Datacenter out = rDatacenter r \<and>
        ClientIp out = rClientIp r \<and>
        ReqMethod out = rReqMethod r \<and>
        ReqURI out = rReqURI r \<and>
        ReqHHost out = rReqHHost r \<and>
        ReqHUserAgent out = rReqHUserAgent r \<and>
        ReqHAcceptEncoding out = rReqHAcceptEncoding r \<and>
        ReqHeaderBytes out = rReqHeaderBytes r \<and>
        ReqBodyBytes out = rReqBodyBytes r \<and>
        WafLogged out = rWafLogged r \<and>
        WafBlocked out = rWafBlocked r \<and>
        WafFailures out = rWafFailures r \<and>
        WafExecuted out = rWafExecuted r \<and>
        AnomalyScore out = rAnomalyScore r \<and>
        SqlInjectionScore out = rSqlInjectionScore r \<and>
        RfiScore out = rRfiScore r \<and>
        LfiScore out = rLfiScore r \<and>
        RceScore out = rRceScore r \<and>
        PhpInjectionScore out = rPhpInjectionScore r \<and>
        SessionFixationScore out = rSessionFixationScore r \<and>
        HTTPViolationScore out = rHTTPViolationScore r \<and>
        XSSScore out = rXSSScore r \<and>
        RespStatus out = rRespStatus r \<and>
        RespBytes out = rRespBytes r \<and>
        RespHeaderBytes out = rRespHeaderBytes r \<and>
        RespBodyBytes out = rRespBodyBytes r \<and>
        ThrottlingRule out = rThrottlingRule r \<and>
        TlsProtocol out = rTlsProtocol r \<and>
        TlsCipher out = rTlsCipher r"
  by (simp add: base_output_def)

lemma base_output_none:
  "RequestEntries event = [] \<Longrightarrow> out = base_output reqId event \<Longrightarrow>
        ServiceId out = [] \<and>
        RequestId out = reqId \<and>
        StartTime out = [] \<and>
        FastlyInfo out = [] \<and>
        Datacenter out = [] \<and>
        ClientIp out = [] \<and>
        ReqMethod out = [] \<and>
        ReqURI out = [] \<and>
        ReqHHost out = [] \<and>
        ReqHUserAgent out = [] \<and>
        ReqHAcceptEncoding out = [] \<and>
        ReqHeaderBytes out = [] \<and>
        ReqBodyBytes out = [] \<and>
        WafLogged out = [] \<and>
        WafBlocked out = [] \<and>
        WafFailures out = [] \<and>
        WafExecuted out = [] \<and>
        AnomalyScore out = [] \<and>
        SqlInjectionScore out = [] \<and>
        RfiScore out = [] \<and>
        LfiScore out = [] \<and>
        RceScore out = [] \<and>
        PhpInjectionScore out = [] \<and>
        SessionFixationScore out = [] \<and>
        HTTPViolationScore out = [] \<and>
        XSSScore out = [] \<and>
        RespStatus out = [] \<and>
        RespBytes out = [] \<and>
        RespHeaderBytes out = [] \<and>
        RespBodyBytes out = [] \<and>
        ThrottlingRule out = [] \<and>
        TlsProtocol out = [] \<and>
        TlsCipher out = []"
  by (simp add: base_output_def zero_OutputEvent_def)

lemma build_output_Inr:
  assumes "build_output picks reqId event = Inr out"
  shows "out = set_throttled ((base_output reqId event)
        \<lparr>WafEvents := (if WafEntries event = [] then None
                           else Some (map wafOut (WafEntries event))),
         RuleIds := Some (map int_of (range_order picks (rule_keys event)))\<rparr>)"
proof -
  have z: "WafEvents (base_output reqId event) = None"
    by (simp add: base_output_def zero_OutputEvent_def split: list.splits)
  from build_output_ok[OF build_output_Inr_parseable[OF assms], of picks reqId] assms
  show ?thesis by (simp add: z elems_def)
qed

lemma build_output_first_only:
  assumes "build_output picks reqId event = Inr out" and "RequestEntries event = r # later"
  shows "build_output picks reqId (event\<lparr>RequestEntries := [r]\<rparr>) = Inr out"
proof -
  let ?e = "event\<lparr>RequestEntries := [r]\<rparr>"
  have p: "\<forall>w\<in>set (WafEntries ?e). parseable (wRuleId w)"
    using build_output_Inr_parseable[OF assms(1)] by simp
  have b: "base_output reqId ?e = base_output reqId event"
    using assms(2) by (simp add: base_output_def)
  have k: "rule_keys ?e = rule_keys event" by (simp add: rule_keys_def)
  show ?thesis
    using build_output_ok[OF p, of picks reqId]
      build_output_ok[OF build_output_Inr_parseable[OF assms(1)], of picks reqId] assms(1)
    by (simp add: b k)
qed

section \<open>Invariants of the running system\<close>

text \<open>What each step changes.\<close>

lemma exec_Lookup:
  assumes "exec (Lookup e) s = Some s'"
  shows "engine s' = engine s" "flushes s' = flushes s" "crashed s' = crashed s"
  using assms by (auto split: if_splits option.splits)

lemma exec_Insert_present:
  assumes "exec (Insert e) s = Some s'" "Events (engine s) (key_of e) = Some a"
  shows "engine s' = engine s" "flushes s' = flushes s" "crashed s' = crashed s"
  using assms by (auto simp: RetrieveEvent_insert_def split: if_splits)

lemma exec_Insert_absent:
  assumes "exec (Insert e) s = Some s'" "Events (engine s) (key_of e) = None"
  shows "Events (engine s') = (Events (engine s))(key_of e \<mapsto> next_addr (engine s))"
    "heap (engine s') = (heap (engine s))(next_addr (engine s) := empty_Event)"
    "next_addr (engine s') = Suc (next_addr (engine s))"
    "timers (engine s') = add_mset (key_of e) (timers (engine s))"
    "logger (engine s') = logger (engine s)"
    "flushes s' = flushes s" "crashed s' = crashed s"
  using assms by (auto simp: RetrieveEvent_insert_def Let_def split: if_splits)

lemma exec_Append:
  assumes "exec (Append a e) s = Some s'"
  shows "Events (engine s') = Events (engine s)"
    "heap (engine s') = (heap (engine s))(a := append_to (heap (engine s) a) e)"
    "next_addr (engine s') = next_addr (engine s)"
    "timers (engine s') = timers (engine s)"
    "logger (engine s') = logger (engine s)"
    "flushes s' = flushes s" "crashed s' = crashed s"
    "\<not> mutex (heap (engine s) a)"
  using assms by (auto simp: append_entry_def split: if_splits)

lemma exec_Fire_present:
  assumes "exec (Fire k) s = Some s'" "Events (engine s) k = Some a"
  shows "Events (engine s') = (Events (engine s))(k := None)"
    "heap (engine s') = heap (engine s)"
    "next_addr (engine s') = next_addr (engine s)"
    "timers (engine s') = timers (engine s) - {#k#}"
    "logger (engine s') = logger (engine s)"
    "flushes s' = add_mset (k, a) (flushes s)" "crashed s' = crashed s"
  using assms by (auto simp: RemoveEvent_def split: if_splits)

lemma exec_Flush:
  assumes "exec (Flush picks k a) s = Some s'"
  shows "Events (engine s') = Events (engine s)"
    "heap (engine s') = (heap (engine s))(a := (heap (engine s) a)\<lparr>mutex := True\<rparr>)"
    "next_addr (engine s') = next_addr (engine s)"
    "timers (engine s') = timers (engine s)"
    "flushes s' = flushes s - {#(k, a)#}" "crashed s' = crashed s"
    "(k, a) \<in># flushes s"
    "length (logger (engine s')) \<le> Suc (length (logger (engine s)))"
  using assms by (auto simp: WriteEvent_body_def Let_def split: if_splits sum.splits)

lemma timers_inv_start: "timers_inv start"
  by (simp add: timers_inv_def start_def NewECE_def)

lemma heap_inv_start: "heap_inv start"
  by (simp add: heap_inv_def start_def NewECE_def)

lemma timers_inv_exec:
  assumes "timers_inv s" "exec act s = Some s'"
  shows "timers_inv s'"
proof -
  from assms(1) have c: "\<not> crashed s"
    and t: "\<And>k. count (timers (engine s)) k = (if Events (engine s) k = None then 0 else 1)"
    by (simp_all add: timers_inv_def)
  show ?thesis
  proof (cases act)
    case (Lookup e)
    with assms(2) exec_Lookup[of e s s'] c t show ?thesis by (simp add: timers_inv_def)
  next
    case (Insert e)
    show ?thesis
    proof (cases "Events (engine s) (key_of e)")
      case None
      from exec_Insert_absent[OF assms(2)[unfolded Insert] None] c t None
      show ?thesis by (auto simp: timers_inv_def)
    next
      case (Some a)
      from exec_Insert_present[OF assms(2)[unfolded Insert] Some] c t
      show ?thesis by (simp add: timers_inv_def)
    qed
  next
    case (Append a e)
    from exec_Append[OF assms(2)[unfolded Append]] c t
    show ?thesis by (simp add: timers_inv_def)
  next
    case (Fire k)
    from assms(2) Fire have "k \<in># timers (engine s)" by (auto split: if_splits)
    with t[of k] obtain a where a: "Events (engine s) k = Some a"
      by (cases "Events (engine s) k") (auto simp: count_eq_zero_iff)
    from exec_Fire_present[OF assms(2)[unfolded Fire] a] c t a
    show ?thesis by (simp add: timers_inv_def)
  next
    case (Flush picks k a)
    from exec_Flush[OF assms(2)[unfolded Flush]] c t
    show ?thesis by (simp add: timers_inv_def)
  qed
qed

lemma heap_inv_exec:
  assumes "heap_inv s" "timers_inv s" "exec act s = Some s'"
  shows "heap_inv s'"
proof -
  from assms(1) have
    h1: "\<And>k a. Events (engine s) k = Some a \<Longrightarrow> a < next_addr (engine s)"
    and h2: "\<And>k a. Events (engine s) k = Some a \<Longrightarrow> \<not> mutex (heap (engine s) a)"
    and h3: "\<And>k a k'. Events (engine s) k = Some a \<Longrightarrow> (k', a) \<notin># flushes s"
    and h4: "\<And>k a k'. Events (engine s) k = Some a \<Longrightarrow> Events (engine s) k' = Some a \<Longrightarrow> k' = k"
    and h5: "\<And>k a. (k, a) \<in># flushes s \<Longrightarrow> a < next_addr (engine s)"
    and h6: "\<And>k a. count (flushes s) (k, a) \<le> 1"
    unfolding heap_inv_def by blast+
  from assms(2) have
    t: "\<And>k. count (timers (engine s)) k = (if Events (engine s) k = None then 0 else 1)"
    by (simp add: timers_inv_def)
  show ?thesis
  proof (cases act)
    case (Lookup e)
    with assms(3) exec_Lookup[of e s s'] assms(1) show ?thesis by (simp add: heap_inv_def)
  next
    case (Insert e)
    show ?thesis
    proof (cases "Events (engine s) (key_of e)")
      case None
      note x = exec_Insert_absent[OF assms(3)[unfolded Insert] None]
      show ?thesis
        unfolding heap_inv_def x
      proof (intro conjI allI impI)
        fix k a assume "((Events (engine s))(key_of e \<mapsto> next_addr (engine s))) k = Some a"
        then show "a < Suc (next_addr (engine s))"
          using h1[of k a] by (auto split: if_splits)
      next
        fix k a assume "((Events (engine s))(key_of e \<mapsto> next_addr (engine s))) k = Some a"
        then show "\<not> mutex (((heap (engine s))(next_addr (engine s) := empty_Event)) a)"
          using h1[of k a] h2[of k a] by (auto simp: empty_Event_def split: if_splits)
      next
        fix k a k' assume "((Events (engine s))(key_of e \<mapsto> next_addr (engine s))) k = Some a"
        then show "(k', a) \<notin># flushes s"
          using h3[of k a k'] h5[of k' a] by (auto split: if_splits)
      next
        fix k a k'
        assume "((Events (engine s))(key_of e \<mapsto> next_addr (engine s))) k = Some a"
          "((Events (engine s))(key_of e \<mapsto> next_addr (engine s))) k' = Some a"
        then show "k' = k"
          using h4[of k a k'] h1[of k a] h1[of k' a] by (auto split: if_splits)
      next
        fix k a assume "(k, a) \<in># flushes s"
        then show "a < Suc (next_addr (engine s))" using h5[of k a] by simp
      next
        fix k a show "count (flushes s) (k, a) \<le> 1" by (rule h6)
      qed
    next
      case (Some a)
      from exec_Insert_present[OF assms(3)[unfolded Insert] Some] assms(1)
      show ?thesis by (simp add: heap_inv_def)
    qed
  next
    case (Append a e)
    note x = exec_Append[OF assms(3)[unfolded Append]]
    have m: "mutex (append_to (heap (engine s) a) e) = mutex (heap (engine s) a)"
      by (cases e) simp_all
    show ?thesis
      unfolding heap_inv_def x(1-7)
    proof (intro conjI allI impI)
      fix k b assume "Events (engine s) k = Some b"
      then show "\<not> mutex (((heap (engine s))(a := append_to (heap (engine s) a) e)) b)"
        using h2[of k b] m x(8) by auto
    qed (use h1 h3 h4 h5 h6 in blast)+
  next
    case (Fire k)
    from assms(3) Fire have "k \<in># timers (engine s)" by (auto split: if_splits)
    with t[of k] obtain a where a: "Events (engine s) k = Some a"
      by (cases "Events (engine s) k") (auto simp: count_eq_zero_iff)
    note x = exec_Fire_present[OF assms(3)[unfolded Fire] a]
    show ?thesis
      unfolding heap_inv_def x
    proof (intro conjI allI impI)
      fix k' b k'' assume "((Events (engine s))(k := None)) k' = Some b"
      then show "(k'', b) \<notin># add_mset (k, a) (flushes s)"
        using h3[of k' b k''] h4[of k' b k] a by (auto split: if_splits)
    next
      fix k' b k''
      assume "((Events (engine s))(k := None)) k' = Some b"
        "((Events (engine s))(k := None)) k'' = Some b"
      then show "k'' = k'" using h4[of k' b k''] by (auto split: if_splits)
    next
      fix k' b assume "(k', b) \<in># add_mset (k, a) (flushes s)"
      then show "b < next_addr (engine s)" using h5[of k' b] h1[OF a] by auto
    next
      fix k' b assume "((Events (engine s))(k := None)) k' = Some b"
      then show "b < next_addr (engine s)" "\<not> mutex (heap (engine s) b)"
        using h1[of k' b] h2[of k' b] by (auto split: if_splits)
    next
      fix k' b show "count (add_mset (k, a) (flushes s)) (k', b) \<le> 1"
        using h6[of k' b] h3[OF a, of k] by (auto simp: count_eq_zero_iff)
    qed
  next
    case (Flush picks k a)
    note x = exec_Flush[OF assms(3)[unfolded Flush]]
    show ?thesis
      unfolding heap_inv_def x(1-6)
    proof (intro conjI allI impI)
      fix k' b assume e: "Events (engine s) k' = Some b"
      from h3[OF e, of k] x(7) have "b \<noteq> a" by auto
      then show "\<not> mutex (((heap (engine s))(a := (heap (engine s) a)\<lparr>mutex := True\<rparr>)) b)"
        using h2[OF e] by simp
    next
      fix k' b k'' assume "Events (engine s) k' = Some b"
      then show "(k'', b) \<notin># flushes s - {#(k, a)#}"
        using h3[of k' b k''] by (auto dest: in_diffD)
    next
      fix k' b assume "(k', b) \<in># flushes s - {#(k, a)#}"
      then show "b < next_addr (engine s)" using h5[of k' b] by (auto dest: in_diffD)
    next
      fix k' b show "count (flushes s - {#(k, a)#}) (k', b) \<le> 1"
        using h6[of k' b] by auto
    qed (use h1 h4 in blast)+
  qed
qed

lemma reachable_inv: "reachable s \<Longrightarrow> timers_inv s \<and> heap_inv s"
  by (induction rule: reachable.induct)
    (auto intro: timers_inv_start heap_inv_start timers_inv_exec heap_inv_exec)

lemma reachable_run: "reachable s \<Longrightarrow> run as s = Some s' \<Longrightarrow> reachable s'"
  by (induction as arbitrary: s) (auto split: option.splits intro: reachable_step)

lemma exec_logger:
  assumes "exec act s = Some s'"
  shows "length (logger (engine s')) \<le> Suc (length (logger (engine s)))"
proof (cases act)
  case (Flush picks k a)
  with assms exec_Flush(8)[of picks k a s s'] show ?thesis by simp
qed (use assms in \<open>auto simp: RetrieveEvent_insert_def append_entry_def RemoveEvent_def Let_def
      split: if_splits option.splits\<close>)

section \<open>The scenarios\<close>

lemmas eval_defs = WriteEvent_def RemoveEvent_def WriteEvent_body_def build_output_def
  store_with_def event_of_def TestWafEntry_def TestWebEntry_def Atoi_def Let_def
  base_output_def zero_OutputEvent_def set_throttled_def wafOut_def decode_logdata_def
  append_slice_def elems_def len_def empty_Event_def

text \<open>The store of the first scenario is what two calls of \<open>AddEvent\<close> build from the
  new engine.\<close>

lemma AddEvent_scenario_A:
  "Option.bind (AddEvent NewECE (Req (TestWebEntry ''AAABBBB'' [])))
     (\<lambda>ece. AddEvent ece (Waf (TestWafEntry ''0'' []))) = Some scenario_A"
  by (simp add: AddEvent_def RetrieveEvent_def RetrieveEvent_insert_def append_entry_def
      NewECE_def scenario_A_def store_with_def event_of_def TestWebEntry_def TestWafEntry_def
      empty_Event_def Let_def)

lemma scenario_present:
  "Events scenario_A ''R1'' = Some 0" "Events scenario_B ''R1'' = Some 0"
  "Events scenario_D ''R1'' = Some 0"
  by (simp_all add: scenario_A_def scenario_B_def scenario_D_def store_with_def)

lemma scenario_A_flush:
  "WriteEvent [] scenario_A ''R1'' = Returns (state_of (WriteEvent [] scenario_A ''R1'')) None"
  by (simp add: scenario_A_def eval_defs)

lemma scenario_B_flush:
  "WriteEvent [] scenario_B ''R1'' = Returns (state_of (WriteEvent [] scenario_B ''R1'')) None"
  by (simp add: scenario_B_def eval_defs)

lemma scenario_D_flush:
  "WriteEvent [] scenario_D ''R1'' = Returns (state_of (WriteEvent [] scenario_D ''R1'')) None"
  by (simp add: scenario_D_def eval_defs)

lemma reachable_scenario_B: "reachable (idle scenario_B)"
proof -
  have "run [Lookup (Waf (TestWafEntry ''0'' [])), Insert (Waf (TestWafEntry ''0'' [])),
             Append 0 (Waf (TestWafEntry ''0'' []))] start = Some (idle scenario_B)"
    by (simp add: start_def NewECE_def idle_def scenario_B_def store_with_def event_of_def
        TestWafEntry_def RetrieveEvent_insert_def append_entry_def empty_Event_def Let_def)
  with reachable_start show ?thesis by (rule reachable_run)
qed

section \<open>The claims\<close>

subsection \<open>C1: one eviction for each key in the store\<close>

text \<open>
  C1: in every reachable state of the running system nothing has panicked; a key that
  is in the store has exactly one pending eviction and a key that is not has none; when
  the eviction of a key in the store fires, \<open>DelayNotify\<close> returns, has written at most
  one line, and leaves the key out of the store with no eviction pending; and no step
  of the system writes more than one line.
\<close>

theorem eviction_exactly_once:
  assumes "reachable s"
  shows "\<not> crashed s
    \<and> (\<forall>k. pending s k = (if k \<in> dom (Events (engine s)) then 1 else 0))
    \<and> (\<forall>k picks. k \<in> dom (Events (engine s)) \<longrightarrow>
         (\<exists>ece' err. DelayNotify picks (engine s) k = Returns ece' err
            \<and> length (logger ece') \<le> Suc (length (logger (engine s)))
            \<and> Events ece' k = None \<and> count (timers ece') k = 0))
    \<and> (\<forall>act s'. exec act s = Some s' \<longrightarrow>
         length (logger (engine s')) \<le> Suc (length (logger (engine s))))"
proof -
  from reachable_inv[OF assms] have ti: "timers_inv s" and hi: "heap_inv s" by simp_all
  from ti have c: "\<not> crashed s"
    and t: "\<And>k. count (timers (engine s)) k = (if Events (engine s) k = None then 0 else 1)"
    by (simp_all add: timers_inv_def)
  have p: "\<forall>k. pending s k = (if k \<in> dom (Events (engine s)) then 1 else 0)"
    using t by (auto simp: pending_def dom_def)
  have d: "\<exists>ece' err. DelayNotify picks (engine s) k = Returns ece' err
            \<and> length (logger ece') \<le> Suc (length (logger (engine s)))
            \<and> Events ece' k = None \<and> count (timers ece') k = 0"
    if "k \<in> dom (Events (engine s))" for k picks
  proof -
    from that obtain a where a: "Events (engine s) k = Some a" by blast
    with hi have m: "\<not> mutex (heap (engine s) a)" unfolding heap_inv_def by blast
    from t[of k] a have "count (timers (engine s)) k = 1" by simp
    with a m show ?thesis
      by (auto simp: DelayNotify_def WriteEvent_def RemoveEvent_def WriteEvent_body_def Let_def
          split: sum.splits)
  qed
  from c p d exec_logger show ?thesis by blast
qed

theorem eviction_exactly_once_witness:
  "\<not> crashed (idle scenario_B)
   \<and> pending (idle scenario_B) ''R1'' = 1 \<and> pending (idle scenario_B) ''R2'' = 0
   \<and> (\<exists>ece' err. DelayNotify [] (engine (idle scenario_B)) ''R1'' = Returns ece' err
        \<and> length (logger ece') \<le> Suc (length (logger (engine (idle scenario_B))))
        \<and> Events ece' ''R1'' = None \<and> count (timers ece') ''R1'' = 0)
   \<and> (\<exists>s'. exec (Fire ''R1'') (idle scenario_B) = Some s'
        \<and> length (logger (engine s')) \<le> Suc (length (logger (engine (idle scenario_B)))))"
proof -
  note w = eviction_exactly_once[OF reachable_scenario_B]
  have k1: "''R1'' \<in> dom (Events (engine (idle scenario_B)))"
    and k2: "''R2'' \<notin> dom (Events (engine (idle scenario_B)))"
    by (simp_all add: idle_def scenario_B_def store_with_def)
  obtain s' where f: "exec (Fire ''R1'') (idle scenario_B) = Some s'"
    by (simp add: idle_def scenario_B_def store_with_def RemoveEvent_def)
  from w have "\<not> crashed (idle scenario_B)" by blast
  moreover from w k1 have "pending (idle scenario_B) ''R1'' = 1" by simp
  moreover from w k2 have "pending (idle scenario_B) ''R2'' = 0" by simp
  moreover from w k1 have
    "\<exists>ece' err. DelayNotify [] (engine (idle scenario_B)) ''R1'' = Returns ece' err
        \<and> length (logger ece') \<le> Suc (length (logger (engine (idle scenario_B))))
        \<and> Events ece' ''R1'' = None \<and> count (timers ece') ''R1'' = 0" by blast
  moreover from w f have "\<exists>s'. exec (Fire ''R1'') (idle scenario_B) = Some s'
        \<and> length (logger (engine s')) \<le> Suc (length (logger (engine (idle scenario_B))))"
    by blast
  ultimately show ?thesis by blast
qed

subsection \<open>C2: the emitted rule ids\<close>

text \<open>
  C2, as stated, fails: the map \<open>ruleIds\<close> is keyed by the rule id strings, so two
  violations whose rule ids are written \<open>1\<close> and \<open>01\<close> give two keys, and the emitted
  list holds the integer 1 twice.
\<close>

theorem rule_ids_duplicate_value:
  "field ''rule_ids'' (last (logger (state_of
      (WriteEvent [] (store_with (event_of [TestWafEntry ''1'' [], TestWafEntry ''01'' []] []))
         ''R1''))))
   = Some (JArray [JNumber 1, JNumber 1])"
  by (simp add: eval_defs json_Marshal_def field_def marshal_slice_def)

text \<open>
  C2, amended: when the flush of a key writes its line, the emitted \<open>rule_ids\<close> hold one
  integer for each distinct rule id string among the key's violations: as a set they are
  the integer values of the rule ids, their number is the number of distinct rule id
  strings, and no integer is repeated when distinct strings have distinct values.
\<close>

theorem rule_ids_by_string:
  assumes "Events ece reqId = Some a" and "WriteEvent picks ece reqId = Returns ece' None"
  shows "\<exists>out ids. logger ece' = logger ece @ [json_Marshal out] \<and> RuleIds out = Some ids
     \<and> set ids = int_of ` wRuleId ` set (WafEntries (heap ece a))
     \<and> length ids = card (wRuleId ` set (WafEntries (heap ece a)))
     \<and> (inj_on int_of (wRuleId ` set (WafEntries (heap ece a))) \<longrightarrow> distinct ids)"
proof -
  from WriteEvent_written[OF assms] obtain out where
    b: "build_output picks reqId (heap ece a) = Inr out"
    and l: "logger ece' = logger ece @ [json_Marshal out]" by blast
  let ?ks = "range_order picks (rule_keys (heap ece a))"
  have r: "RuleIds out = Some (map int_of ?ks)"
    using build_output_Inr[OF b] by (simp add: set_throttled_def)
  have s: "set ?ks = wRuleId ` set (WafEntries (heap ece a))"
    by (simp add: set_range_order set_rule_keys)
  have d: "distinct ?ks" by (simp add: distinct_range_order distinct_rule_keys)
  have "length (map int_of ?ks) = card (wRuleId ` set (WafEntries (heap ece a)))"
    using distinct_card[OF d] s by simp
  moreover have "set (map int_of ?ks) = int_of ` wRuleId ` set (WafEntries (heap ece a))"
    using s by simp
  moreover have "inj_on int_of (wRuleId ` set (WafEntries (heap ece a)))
      \<longrightarrow> distinct (map int_of ?ks)"
    using d s by (simp add: distinct_map)
  ultimately show ?thesis using l r by blast
qed

theorem rule_ids_by_string_witness:
  "\<exists>out. logger (state_of (WriteEvent [] scenario_D ''R1''))
        = logger scenario_D @ [json_Marshal out] \<and> RuleIds out = Some [0]"
proof -
  from rule_ids_by_string[OF scenario_present(3) scenario_D_flush]
  obtain out ids where l: "logger (state_of (WriteEvent [] scenario_D ''R1''))
        = logger scenario_D @ [json_Marshal out]" and r: "RuleIds out = Some ids"
    and s: "set ids = int_of ` wRuleId ` set (WafEntries (heap scenario_D 0))"
    and n: "length ids = card (wRuleId ` set (WafEntries (heap scenario_D 0)))"
    and "inj_on int_of (wRuleId ` set (WafEntries (heap scenario_D 0))) \<longrightarrow> distinct ids"
    by blast
  have "inj_on int_of (wRuleId ` set (WafEntries (heap scenario_D 0)))"
    by (simp add: scenario_D_def store_with_def event_of_def TestWafEntry_def)
  have "set ids = {0}"
    using s by (simp add: scenario_D_def store_with_def event_of_def TestWafEntry_def
        int_of_def Atoi_def)
  moreover have "length ids = 1"
    using n by (simp add: scenario_D_def store_with_def event_of_def TestWafEntry_def)
  ultimately have "ids = [0]"
    by (cases ids) auto
  then show ?thesis using l r by blast
qed

subsection \<open>C3: flushing a key that is not in the store\<close>

text \<open>
  C3, as stated, fails: for a key that is not in the store \<open>RemoveEvent\<close> returns
  \<open>nil\<close>, and \<open>WriteEvent\<close> goes on to \<open>event.mutex.Lock()\<close>, which panics.
\<close>

theorem WriteEvent_absent_not_safe: "WriteEvent [] NewECE ''R1'' = Panics NewECE"
  by (simp add: WriteEvent_def RemoveEvent_def NewECE_def)

text \<open>
  C3, amended: \<open>WriteEvent\<close> for a key that is absent from the store writes no output
  line and leaves the store unchanged, and then panics on the \<open>nil\<close> entry.
\<close>

theorem WriteEvent_absent_panics:
  assumes "Events ece reqId = None"
  shows "WriteEvent picks ece reqId = Panics ece"
proof -
  have "(Events ece)(reqId := None) = Events ece"
    using assms by (simp add: fun_upd_idem)
  then show ?thesis using assms by (simp add: WriteEvent_def RemoveEvent_def)
qed

theorem WriteEvent_absent_panics_witness:
  "WriteEvent [] scenario_A ''R2'' = Panics scenario_A"
  using WriteEvent_absent_panics[of scenario_A "''R2''" "[]"]
  by (simp add: scenario_A_def store_with_def)

subsection \<open>C4: the fields taken from the first request entry\<close>

text \<open>
  C4: when the flush of a key writes its line and the entry holds a request entry, every
  field of the output that comes from a request entry is that field of the first one,
  and the output is the one built from the first request entry alone; when the entry
  holds no request entry, the request id is the key and the other such fields are empty.
\<close>

theorem summary_from_first_request:
  assumes "Events ece reqId = Some a" and "WriteEvent picks ece reqId = Returns ece' None"
  shows "\<exists>out. logger ece' = logger ece @ [json_Marshal out] \<and>
     (case RequestEntries (heap ece a) of
        r # later \<Rightarrow>
            ServiceId out = rServiceId r \<and>
            RequestId out = rRequestId r \<and>
            StartTime out = rStartTime r \<and>
            FastlyInfo out = rFastlyInfo r \<and>
            Datacenter out = rDatacenter r \<and>
            ClientIp out = rClientIp r \<and>
            ReqMethod out = rReqMethod r \<and>
            ReqURI out = rReqURI r \<and>
            ReqHHost out = rReqHHost r \<and>
            ReqHUserAgent out = rReqHUserAgent r \<and>
            ReqHAcceptEncoding out = rReqHAcceptEncoding r \<and>
            ReqHeaderBytes out = rReqHeaderBytes r \<and>
            ReqBodyBytes out = rReqBodyBytes r \<and>
            WafLogged out = rWafLogged r \<and>
            WafBlocked out = rWafBlocked r \<and>
            WafFailures out = rWafFailures r \<and>
            WafExecuted out = rWafExecuted r \<and>
            AnomalyScore out = rAnomalyScore r \<and>
            SqlInjectionScore out = rSqlInjectionScore r \<and>
            RfiScore out = rRfiScore r \<and>
            LfiScore out = rLfiScore r \<and>
            RceScore out = rRceScore r \<and>
            PhpInjectionScore out = rPhpInjectionScore r \<and>
            SessionFixationScore out = rSessionFixationScore r \<and>
            HTTPViolationScore out = rHTTPViolationScore r \<and>
            XSSScore out = rXSSScore r \<and>
            RespStatus out = rRespStatus r \<and>
            RespBytes out = rRespBytes r \<and>
            RespHeaderBytes out = rRespHeaderBytes r \<and>
            RespBodyBytes out = rRespBodyBytes r \<and>
            ThrottlingRule out = rThrottlingRule r \<and>
            TlsProtocol out = rTlsProtocol r \<and>
            TlsCipher out = rTlsCipher r \<and>
            build_output picks reqId ((heap ece a)\<lparr>RequestEntries := [r]\<rparr>) = Inr out
      | [] \<Rightarrow>
            ServiceId out = [] \<and>
            RequestId out = reqId \<and>
            StartTime out = [] \<and>
            FastlyInfo out = [] \<and>
            Datacenter out = [] \<and>
            ClientIp out = [] \<and>
            ReqMethod out = [] \<and>
            ReqURI out = [] \<and>
            ReqHHost out = [] \<and>
            ReqHUserAgent out = [] \<and>
            ReqHAcceptEncoding out = [] \<and>
            ReqHeaderBytes out = [] \<and>
            ReqBodyBytes out = [] \<and>
            WafLogged out = [] \<and>
            WafBlocked out = [] \<and>
            WafFailures out = [] \<and>
            WafExecuted out = [] \<and>
            AnomalyScore out = [] \<and>
            SqlInjectionScore out = [] \<and>
            RfiScore out = [] \<and>
            LfiScore out = [] \<and>
            RceScore out = [] \<and>
            PhpInjectionScore out = [] \<and>
            SessionFixationScore out = [] \<and>
            HTTPViolationScore out = [] \<and>
            XSSScore out = [] \<and>
            RespStatus out = [] \<and>
            RespBytes out = [] \<and>
            RespHeaderBytes out = [] \<and>
            RespBodyBytes out = [] \<and>
            ThrottlingRule out = [] \<and>
            TlsProtocol out = [] \<and>
            TlsCipher out = [])"
proof -
  from WriteEvent_written[OF assms] obtain out where
    b: "build_output picks reqId (heap ece a) = Inr out"
    and l: "logger ece' = logger ece @ [json_Marshal out]" by blast
  note o = build_output_Inr[OF b]
  have "case RequestEntries (heap ece a) of
        r # later \<Rightarrow>
            ServiceId out = rServiceId r \<and>
            RequestId out = rRequestId r \<and>
            StartTime out = rStartTime r \<and>
            FastlyInfo out = rFastlyInfo r \<and>
            Datacenter out = rDatacenter r \<and>
            ClientIp out = rClientIp r \<and>
            ReqMethod out = rReqMethod r \<and>
            ReqURI out = rReqURI r \<and>
            ReqHHost out = rReqHHost r \<and>
            ReqHUserAgent out = rReqHUserAgent r \<and>
            ReqHAcceptEncoding out = rReqHAcceptEncoding r \<and>
            ReqHeaderBytes out = rReqHeaderBytes r \<and>
            ReqBodyBytes out = rReqBodyBytes r \<and>
            WafLogged out = rWafLogged r \<and>
            WafBlocked out = rWafBlocked r \<and>
            WafFailures out = rWafFailures r \<and>
            WafExecuted out = rWafExecuted r \<and>
            AnomalyScore out = rAnomalyScore r \<and>
            SqlInjectionScore out = rSqlInjectionScore r \<and>
            RfiScore out = rRfiScore r \<and>
            LfiScore out = rLfiScore r \<and>
            RceScore out = rRceScore r \<and>
            PhpInjectionScore out = rPhpInjectionScore r \<and>
            SessionFixationScore out = rSessionFixationScore r \<and>
            HTTPViolationScore out = rHTTPViolationScore r \<and>
            XSSScore out = rXSSScore r \<and>
            RespStatus out = rRespStatus r \<and>
            RespBytes out = rRespBytes r \<and>
            RespHeaderBytes out = rRespHeaderBytes r \<and>
            RespBodyBytes out = rRespBodyBytes r \<and>
            ThrottlingRule out = rThrottlingRule r \<and>
            TlsProtocol out = rTlsProtocol r \<and>
            TlsCipher out = rTlsCipher r \<and>
            build_output picks reqId ((heap ece a)\<lparr>RequestEntries := [r]\<rparr>) = Inr out
      | [] \<Rightarrow>
            ServiceId out = [] \<and>
            RequestId out = reqId \<and>
            StartTime out = [] \<and>
            FastlyInfo out = [] \<and>
            Datacenter out = [] \<and>
            ClientIp out = [] \<and>
            ReqMethod out = [] \<and>
            ReqURI out = [] \<and>
            ReqHHost out = [] \<and>
            ReqHUserAgent out = [] \<and>
            ReqHAcceptEncoding out = [] \<and>
            ReqHeaderBytes out = [] \<and>
            ReqBodyBytes out = [] \<and>
            WafLogged out = [] \<and>
            WafBlocked out = [] \<and>
            WafFailures out = [] \<and>
            WafExecuted out = [] \<and>
            AnomalyScore out = [] \<and>
            SqlInjectionScore out = [] \<and>
            RfiScore out = [] \<and>
            LfiScore out = [] \<and>
            RceScore out = [] \<and>
            PhpInjectionScore out = [] \<and>
            SessionFixationScore out = [] \<and>
            HTTPViolationScore out = [] \<and>
            XSSScore out = [] \<and>
            RespStatus out = [] \<and>
            RespBytes out = [] \<and>
            RespHeaderBytes out = [] \<and>
            RespBodyBytes out = [] \<and>
            ThrottlingRule out = [] \<and>
            TlsProtocol out = [] \<and>
            TlsCipher out = []"
  proof (cases "RequestEntries (heap ece a)")
    case Nil
    from base_output_none[OF Nil refl, of reqId] show ?thesis
      by (simp add: Nil o set_throttled_def)
  next
    case (Cons r later)
    from base_output_first[OF Cons refl, of reqId] build_output_first_only[OF b Cons]
    show ?thesis
      by (simp add: Cons o set_throttled_def)
  qed
  then show ?thesis using l by blast
qed

theorem summary_from_first_request_witness:
  "(\<exists>out. logger (state_of (WriteEvent [] scenario_D ''R1''))
        = logger scenario_D @ [json_Marshal out]
      \<and> ServiceId out = ''AAABBBB'' \<and> ThrottlingRule out = ''rule7'')
   \<and> (\<exists>out. logger (state_of (WriteEvent [] scenario_B ''R1''))
        = logger scenario_B @ [json_Marshal out]
      \<and> RequestId out = ''R1'' \<and> ServiceId out = [])"
proof
  from summary_from_first_request[OF scenario_present(3) scenario_D_flush]
  show "\<exists>out. logger (state_of (WriteEvent [] scenario_D ''R1''))
        = logger scenario_D @ [json_Marshal out]
      \<and> ServiceId out = ''AAABBBB'' \<and> ThrottlingRule out = ''rule7''"
    by (auto simp: scenario_D_def store_with_def event_of_def TestWebEntry_def)
next
  from summary_from_first_request[OF scenario_present(2) scenario_B_flush]
  show "\<exists>out. logger (state_of (WriteEvent [] scenario_B ''R1''))
        = logger scenario_B @ [json_Marshal out]
      \<and> RequestId out = ''R1'' \<and> ServiceId out = []"
    by (auto simp: scenario_B_def store_with_def event_of_def)
qed

subsection \<open>C5: one detail object per waf entry\<close>

text \<open>
  C5: when the flush of a key writes its line, the emitted \<open>waf_events\<close> are the detail
  objects of the key's waf entries, one for each, in the order of the appends, and so as
  many as the entry holds, whether or not rule ids repeat.
\<close>

theorem waf_events_one_per_violation:
  assumes "Events ece reqId = Some a" and "WriteEvent picks ece reqId = Returns ece' None"
  shows "\<exists>out. logger ece' = logger ece @ [json_Marshal out]
           \<and> elems (WafEvents out) = map wafOut (WafEntries (heap ece a))
           \<and> len (WafEvents out) = length (WafEntries (heap ece a))"
proof -
  from WriteEvent_written[OF assms] obtain out where
    b: "build_output picks reqId (heap ece a) = Inr out"
    and l: "logger ece' = logger ece @ [json_Marshal out]" by blast
  have "elems (WafEvents out) = map wafOut (WafEntries (heap ece a))"
    using build_output_Inr[OF b] by (simp add: set_throttled_def elems_def)
  then show ?thesis using l by (auto simp: len_def elems_def split: option.splits)
qed

theorem waf_events_one_per_violation_witness:
  "\<exists>out. logger (state_of (WriteEvent [] scenario_D ''R1''))
        = logger scenario_D @ [json_Marshal out]
     \<and> elems (WafEvents out) = [wafOut (TestWafEntry ''0'' []), wafOut (TestWafEntry ''0'' [])]
     \<and> len (WafEvents out) = 2"
  using waf_events_one_per_violation[OF scenario_present(3) scenario_D_flush]
  by (auto simp: scenario_D_def store_with_def event_of_def)

subsection \<open>C6: decoding the log data\<close>

text \<open>
  C6, as stated, fails: \<open>DecodeString\<close> returns the bytes it decoded before the corrupt
  position together with its error, and \<open>WriteEvent\<close> drops the error and keeps the
  bytes. The log data \<open>QUJD!\<close> is not valid base64, and the emitted \<open>logdata\<close> is
  \<open>ABC\<close>.
\<close>

theorem logdata_invalid_not_empty:
  "snd (DecodeString ''QUJD!'') \<and>
   field ''waf_events'' (last (logger (state_of
      (WriteEvent [] (store_with (event_of [TestWafEntry ''0'' ''QUJD!''] [])) ''R1''))))
   = Some (JArray [JObject [(''rule_id'', JString ''0''), (''severity'', JString ''99''),
        (''anomaly_score'', JString ''0''), (''logdata'', JString ''ABC''),
        (''waf_message'', JString [])]])"
  by (simp add: eval_defs json_Marshal_def field_def marshal_slice_def marshal_OutputWaf_def
      DecodeString_QUJD_bang)

text \<open>
  C6, amended: decoding the log data never makes the flush fail: when every rule id is
  integer-parseable the output is built, whatever the log data are, and each detail
  object carries the decoding of its entry's log data. Empty log data decode to the empty
  string. Log data that are valid base64 followed by a corrupt byte (one that is neither
  in the alphabet nor a newline) and anything after it are not valid, and decode to the
  bytes of the valid part: to the empty string only if that part decodes to nothing.
\<close>

theorem logdata_decoding:
  "((\<forall>w\<in>set (WafEntries event). parseable (wRuleId w)) \<longrightarrow>
      (\<exists>out. build_output picks reqId event = Inr out
         \<and> map oLogData (elems (WafEvents out))
             = map (\<lambda>w. decode_logdata (wLogData w)) (WafEntries event)))
   \<and> decode_logdata [] = []
   \<and> (DecodeString valid = (bytes, False) \<and> decodeMap c = 255 \<and> \<not> is_newline c \<longrightarrow>
        snd (DecodeString (valid @ c # rest)) \<and> decode_logdata (valid @ c # rest) = bytes)"
proof (intro conjI impI)
  assume p: "\<forall>w\<in>set (WafEntries event). parseable (wRuleId w)"
  from build_output_ok[OF p, of picks reqId]
  obtain out where b: "build_output picks reqId event = Inr out" by blast
  have "elems (WafEvents out) = map wafOut (WafEntries event)"
    using build_output_Inr[OF b] by (simp add: set_throttled_def elems_def)
  then have "map oLogData (elems (WafEvents out))
             = map (\<lambda>w. decode_logdata (wLogData w)) (WafEntries event)"
    by (simp add: wafOut_def)
  with b show "\<exists>out. build_output picks reqId event = Inr out
         \<and> map oLogData (elems (WafEvents out))
             = map (\<lambda>w. decode_logdata (wLogData w)) (WafEntries event)" by blast
next
  show "decode_logdata [] = []" by (simp add: decode_logdata_def)
next
  assume a: "DecodeString valid = (bytes, False) \<and> decodeMap c = 255 \<and> \<not> is_newline c"
  then have "DecodeString (valid @ c # rest) = (bytes, True)"
    unfolding DecodeString_def by (intro decode_from_corrupt) simp_all
  then show "snd (DecodeString (valid @ c # rest))"
    and "decode_logdata (valid @ c # rest) = bytes"
    by (simp_all add: decode_logdata_def)
qed

theorem logdata_decoding_witness:
  "(\<exists>out. build_output [] ''R1'' (event_of [TestWafEntry ''0'' ''QUJD!''] []) = Inr out
         \<and> map oLogData (elems (WafEvents out)) = [decode_logdata ''QUJD!''])
   \<and> snd (DecodeString ''QUJD!'') \<and> decode_logdata ''QUJD!'' = ''ABC''
   \<and> snd (DecodeString ''!QUJD'') \<and> decode_logdata ''!QUJD'' = []"
proof -
  have v: "DecodeString ''QUJD'' = (''ABC'', False)"
    by (simp add: DecodeString_def decodeMap_def is_newline_def padChar_def quantum_bytes_def
      char_of_eq_iff)
  have e: "DecodeString [] = ([], False)" by (simp add: DecodeString_def)
  have c: "decodeMap CHR ''!'' = 255" "\<not> is_newline CHR ''!''"
    by (simp_all add: decodeMap_def is_newline_def)
  have p: "\<forall>w\<in>set (WafEntries (event_of [TestWafEntry ''0'' ''QUJD!''] [])).
      parseable (wRuleId w)"
    by (simp add: event_of_def TestWafEntry_def parseable_def Atoi_def)
  from logdata_decoding[of "event_of [TestWafEntry ''0'' ''QUJD!''] []" "[]" "''R1''"
      "''QUJD''" "''ABC''" "CHR ''!''" "[]"]
    logdata_decoding[of "event_of [] []" "[]" "''R1''" "[]" "[]" "CHR ''!''" "''QUJD''"]
    p v e c
  show ?thesis by (auto simp: event_of_def TestWafEntry_def)
qed

subsection \<open>C7: a rule id that does not convert\<close>

text \<open>
  C7: for a key that is in the store, if the rule id of one of its waf entries is not
  integer-parseable, \<open>WriteEvent\<close> returns a conversion error, writes no line, and the
  key with its entries is gone from the store; if every rule id is integer-parseable,
  \<open>WriteEvent\<close> returns no error and has written exactly one line.
\<close>

theorem conversion_error_loses_line:
  assumes "Events ece reqId = Some a" and "\<not> mutex (heap ece a)"
  shows "((\<exists>w\<in>set (WafEntries (heap ece a)). \<not> parseable (wRuleId w)) \<longrightarrow>
            (\<exists>ece' rid e. WriteEvent picks ece reqId = Returns ece' (Some (ConversionError rid e))
               \<and> logger ece' = logger ece \<and> Events ece' reqId = None))
       \<and> ((\<forall>w\<in>set (WafEntries (heap ece a)). parseable (wRuleId w)) \<longrightarrow>
            (\<exists>ece' line. WriteEvent picks ece reqId = Returns ece' None
               \<and> logger ece' = logger ece @ [line] \<and> Events ece' reqId = None))"
proof (intro conjI impI)
  assume "\<exists>w\<in>set (WafEntries (heap ece a)). \<not> parseable (wRuleId w)"
  then have "\<not> (\<forall>w\<in>set (WafEntries (heap ece a)). parseable (wRuleId w))" by blast
  from build_output_err[OF this, of picks reqId]
  obtain k e where "build_output picks reqId (heap ece a) = Inl (ConversionError k e)" by blast
  then show "\<exists>ece' rid e. WriteEvent picks ece reqId = Returns ece' (Some (ConversionError rid e))
               \<and> logger ece' = logger ece \<and> Events ece' reqId = None"
    using assms by (simp add: WriteEvent_def RemoveEvent_def WriteEvent_body_def Let_def)
next
  assume "\<forall>w\<in>set (WafEntries (heap ece a)). parseable (wRuleId w)"
  from build_output_ok[OF this, of picks reqId]
  obtain out where "build_output picks reqId (heap ece a) = Inr out" by blast
  then show "\<exists>ece' line. WriteEvent picks ece reqId = Returns ece' None
               \<and> logger ece' = logger ece @ [line] \<and> Events ece' reqId = None"
    using assms by (simp add: WriteEvent_def RemoveEvent_def WriteEvent_body_def Let_def)
qed

theorem conversion_error_loses_line_witness:
  "(\<exists>ece' rid e. WriteEvent [] (store_with (event_of [TestWafEntry ''abc'' []] [])) ''R1''
        = Returns ece' (Some (ConversionError rid e))
      \<and> logger ece' = logger (store_with (event_of [TestWafEntry ''abc'' []] []))
      \<and> Events ece' ''R1'' = None)
   \<and> (\<exists>ece' line. WriteEvent [] scenario_B ''R1'' = Returns ece' None
      \<and> logger ece' = logger scenario_B @ [line]
      \<and> Events ece' ''R1'' = None)"
  using conversion_error_loses_line
          [of "store_with (event_of [TestWafEntry ''abc'' []] [])" "''R1''" 0 "[]"]
        conversion_error_loses_line[of scenario_B "''R1''" 0 "[]"]
  by (simp add: scenario_B_def store_with_def event_of_def TestWafEntry_def parseable_def
      Atoi_def)

subsection \<open>C8: the throttled flag\<close>

text \<open>
  C8: when the flush of a key writes its line, \<open>throttled\<close> is 1 if the entry holds a
  request entry and the \<open>throttling_rule\<close> of the first one is not empty, and 0
  otherwise, so 0 when the entry holds no request entry.
\<close>

theorem throttled_flag:
  assumes "Events ece reqId = Some a" and "WriteEvent picks ece reqId = Returns ece' None"
  shows "\<exists>out. logger ece' = logger ece @ [json_Marshal out]
           \<and> Throttled out =
               (case RequestEntries (heap ece a) of
                  [] \<Rightarrow> 0
                | r # later \<Rightarrow> if rThrottlingRule r \<noteq> [] then 1 else 0)"
proof -
  from WriteEvent_written[OF assms] obtain out where
    b: "build_output picks reqId (heap ece a) = Inr out"
    and l: "logger ece' = logger ece @ [json_Marshal out]" by blast
  have "Throttled out =
               (case RequestEntries (heap ece a) of
                  [] \<Rightarrow> 0
                | r # later \<Rightarrow> if rThrottlingRule r \<noteq> [] then 1 else 0)"
    using build_output_Inr[OF b]
    by (auto simp: set_throttled_def base_output_def zero_OutputEvent_def split: list.splits)
  then show ?thesis using l by blast
qed

theorem throttled_flag_witness:
  "(\<exists>out. logger (state_of (WriteEvent [] scenario_D ''R1''))
        = logger scenario_D @ [json_Marshal out] \<and> Throttled out = 1)
   \<and> (\<exists>out. logger (state_of (WriteEvent [] scenario_A ''R1''))
        = logger scenario_A @ [json_Marshal out] \<and> Throttled out = 0)
   \<and> (\<exists>out. logger (state_of (WriteEvent [] scenario_B ''R1''))
        = logger scenario_B @ [json_Marshal out] \<and> Throttled out = 0)"
  using throttled_flag[OF scenario_present(3) scenario_D_flush]
        throttled_flag[OF scenario_present(1) scenario_A_flush]
        throttled_flag[OF scenario_present(2) scenario_B_flush]
  by (simp add: scenario_A_def scenario_B_def scenario_D_def store_with_def event_of_def
      TestWebEntry_def)

subsection \<open>C9: the field names of an output line\<close>

text \<open>
  C9, as stated, fails: \<open>OutputEvent\<close> declares the fields \<open>tls_protocol\<close> and
  \<open>tls_cipher\<close> after \<open>throttled\<close>, and every line carries them.
\<close>

theorem output_fields_beyond_spec:
  "\<not> set (field_names (last (logger (state_of (WriteEvent [] scenario_A ''R1'')))))
       \<subseteq> set spec_field_names"
  by (simp add: scenario_A_def eval_defs json_Marshal_def field_names_def spec_field_names_def)

text \<open>
  C9, amended: the fields of every output line are the names the specification lists, in
  that order, followed by \<open>tls_protocol\<close> and \<open>tls_cipher\<close>, and no others.
\<close>

theorem output_field_names:
  assumes "WriteEvent picks ece reqId = Returns ece' None"
  shows "\<exists>line. logger ece' = logger ece @ [line]
           \<and> field_names line = spec_field_names @ [''tls_protocol'', ''tls_cipher'']"
proof -
  from assms obtain a where a: "Events ece reqId = Some a"
    by (auto simp: WriteEvent_def RemoveEvent_def split: option.splits)
  from WriteEvent_written[OF a assms] obtain out where
    "logger ece' = logger ece @ [json_Marshal out]" by blast
  moreover have "field_names (json_Marshal out)
       = spec_field_names @ [''tls_protocol'', ''tls_cipher'']"
    by (simp add: field_names_def json_Marshal_def spec_field_names_def)
  ultimately show ?thesis by blast
qed

theorem output_field_names_witness:
  "\<exists>line. logger (state_of (WriteEvent [] scenario_A ''R1'')) = logger scenario_A @ [line]
     \<and> field_names line = spec_field_names @ [''tls_protocol'', ''tls_cipher'']"
  using output_field_names[OF scenario_A_flush] .

subsection \<open>C10: no waf entries\<close>

text \<open>
  C10: when a key whose entry holds no waf entry is flushed, the line is written, its
  \<open>rule_ids\<close> field is the empty JSON list and its \<open>waf_events\<close> field is JSON
  \<open>null\<close>.
\<close>

theorem empty_waf_events_null:
  assumes "Events ece reqId = Some a" and "\<not> mutex (heap ece a)"
    and "WafEntries (heap ece a) = []"
  shows "\<exists>ece' line. WriteEvent picks ece reqId = Returns ece' None
           \<and> logger ece' = logger ece @ [line]
           \<and> field ''rule_ids'' line = Some (JArray [])
           \<and> field ''waf_events'' line = Some JNull"
proof -
  have "\<forall>w\<in>set (WafEntries (heap ece a)). parseable (wRuleId w)" using assms(3) by simp
  from build_output_ok[OF this, of picks reqId]
  obtain out where b: "build_output picks reqId (heap ece a) = Inr out" by blast
  have k: "rule_keys (heap ece a) = []" using assms(3) by (simp add: rule_keys_def)
  have r: "RuleIds out = Some []" "WafEvents out = None"
    using build_output_Inr[OF b] assms(3) by (simp_all add: k set_throttled_def)
  have "field ''rule_ids'' (json_Marshal out) = Some (JArray [])"
    using r by (simp add: field_def json_Marshal_def marshal_slice_def)
  moreover have "field ''waf_events'' (json_Marshal out) = Some JNull"
    using r by (simp add: field_def json_Marshal_def marshal_slice_def)
  ultimately show ?thesis
    using assms(1,2) b
    by (simp add: WriteEvent_def RemoveEvent_def WriteEvent_body_def Let_def)
qed

theorem empty_waf_events_null_witness:
  "\<exists>ece' line. WriteEvent [] (store_with (event_of [] [TestWebEntry ''AAABBBB'' []])) ''R1''
        = Returns ece' None
     \<and> logger ece' = logger (store_with (event_of [] [TestWebEntry ''AAABBBB'' []])) @ [line]
     \<and> field ''rule_ids'' line = Some (JArray [])
     \<and> field ''waf_events'' line = Some JNull"
  using empty_waf_events_null
          [of "store_with (event_of [] [TestWebEntry ''AAABBBB'' []])" "''R1''" 0 "[]"]
  by (simp add: store_with_def event_of_def)

end
